theory Spec2Isabelle
  imports Main "HOL-Library.Word"
begin

unbundle bit_operations_syntax

section \<open>Common types\<close>

text \<open>
  A Go \<^verbatim>\<open>[]byte\<close> is a list of 8-bit words, a Go \<^verbatim>\<open>string\<close> is a list of
  characters (Isabelle's \<^typ>\<open>char\<close> is one byte). The conversion \<^verbatim>\<open>[]byte(s)\<close> maps
  every character to its byte.
\<close>

type_synonym byte = "8 word"
type_synonym bytes = "byte list"

definition bytes_of :: "string \<Rightarrow> bytes" where
  "bytes_of s = map of_char s"

section \<open>utils/tearc: the sharded timed ARC cache\<close>

subsection \<open>The eviction queue (heap.Interface of evictionQueue)\<close>

text \<open>
  \<^verbatim>\<open>time.Time\<close> and \<^verbatim>\<open>time.Duration\<close> are counted in nanoseconds; the model reads the
  clock through a parameter \<open>now\<close>.

  The queue is a slice of pointers to heap items, and the pointer map shares these
  pointers, so the items live in an explicit store \<open>items\<close> (pointer to object);
  \<open>eq\<close> is the slice of pointers and \<open>next_ptr\<close> the next unused pointer. An
  operation that would index out of range or follow a missing pointer panics in Go:
  the model returns \<open>None\<close> there.
\<close>

record heapItem =
  key :: string
  evictionTime :: int
  index :: int

type_synonym item_store = "nat \<Rightarrow> heapItem option"

definition item_at :: "item_store \<Rightarrow> nat list \<Rightarrow> nat \<Rightarrow> heapItem option" where
  "item_at items eq i = (if i < length eq then items (eq ! i) else None)"

definition Len :: "nat list \<Rightarrow> nat" where
  "Len eq = length eq"

definition Less :: "item_store \<Rightarrow> nat list \<Rightarrow> nat \<Rightarrow> nat \<Rightarrow> bool option" where
  "Less items eq i j =
     (case item_at items eq i of None \<Rightarrow> None
      | Some a \<Rightarrow> (case item_at items eq j of None \<Rightarrow> None
          | Some b \<Rightarrow> Some (evictionTime a < evictionTime b)))"

definition Swap :: "item_store \<Rightarrow> nat list \<Rightarrow> nat \<Rightarrow> nat \<Rightarrow> (item_store \<times> nat list) option" where
  "Swap items eq i j =
     (if i < length eq \<and> j < length eq then
        (let eq1 = eq[i := eq ! j, j := eq ! i] in
         case items (eq1 ! i) of None \<Rightarrow> None
         | Some a \<Rightarrow>
            (let items1 = items(eq1 ! i \<mapsto> a\<lparr>index := int i\<rparr>) in
             case items1 (eq1 ! j) of None \<Rightarrow> None
             | Some b \<Rightarrow> Some (items1(eq1 ! j \<mapsto> b\<lparr>index := int j\<rparr>), eq1)))
      else None)"

definition Push :: "item_store \<Rightarrow> nat list \<Rightarrow> nat \<Rightarrow> (item_store \<times> nat list) option" where
  "Push items eq p =
     (case items p of None \<Rightarrow> None
      | Some item \<Rightarrow> Some (items(p \<mapsto> item\<lparr>index := int (length eq)\<rparr>), eq @ [p]))"

text \<open>
  \<^verbatim>\<open>container/heap\<close>: \<^verbatim>\<open>up\<close> moves the element at \<open>j\<close> towards the root while it is
  less than its parent \<open>(j - 1) / 2\<close>; Go's division truncates, so at \<open>j = 0\<close> the
  parent is \<open>0\<close> itself and the loop stops. \<^verbatim>\<open>heap.Push\<close> appends and calls \<^verbatim>\<open>up\<close>.
\<close>

fun up :: "item_store \<Rightarrow> nat list \<Rightarrow> nat \<Rightarrow> (item_store \<times> nat list) option" where
  "up items eq j =
     (if j = 0 then Some (items, eq)
      else (case Less items eq j ((j - 1) div 2) of None \<Rightarrow> None
        | Some lt \<Rightarrow>
           if \<not> lt then Some (items, eq)
           else (case Swap items eq ((j - 1) div 2) j of None \<Rightarrow> None
             | Some (items1, eq1) \<Rightarrow> up items1 eq1 ((j - 1) div 2))))"

declare up.simps [simp del]

definition heap_Push :: "item_store \<Rightarrow> nat list \<Rightarrow> nat \<Rightarrow> (item_store \<times> nat list) option" where
  "heap_Push items eq p =
     (case Push items eq p of None \<Rightarrow> None
      | Some (items1, eq1) \<Rightarrow> up items1 eq1 (Len eq1 - 1))"

subsection \<open>Buckets\<close>

text \<open>
  The ARC cache is the external library gcache. Its state is a type parameter
  \<open>'arc\<close> and its operations are the fields of \<open>gcache\<close>: \<open>Build n\<close> is
  \<^verbatim>\<open>gcache.New(n).ARC().Build()\<close>, \<open>arcGet\<close> and \<open>arcSet\<close> return their result
  together with the cache state they leave behind.
\<close>

datatype gcache_error = KeyNotFoundError | OtherError string

record ('arc, 'v) gcache =
  Build :: "int \<Rightarrow> 'arc"
  arcGet :: "'arc \<Rightarrow> string \<Rightarrow> (gcache_error + 'v) \<times> 'arc"
  arcSet :: "'arc \<Rightarrow> string \<Rightarrow> 'v \<Rightarrow> gcache_error option \<times> 'arc"

record BucketConfig =
  MinTick :: int
  MaxTick :: int

text \<open>
  A \<^verbatim>\<open>LoaderFunc\<close> returns \<^verbatim>\<open>(value, evictIn, err)\<close>; \<open>None\<close> in the third component
  is Go's \<^verbatim>\<open>nil\<close> error. An \<^verbatim>\<open>EvictedFunc\<close> has no result; \<^verbatim>\<open>NewCache\<close> replaces a
  \<^verbatim>\<open>nil\<close> one by the empty callback.
\<close>

type_synonym ('v, 'i, 'e) LoaderFunc = "string \<Rightarrow> 'i \<Rightarrow> 'v \<times> int \<times> 'e option"

datatype 'f EvictedFunc = EmptyCallback | Callback 'f

datatype 'e tearc_error =
    SizeNotPositive int
  | ShardsNotPositive int
  | SizeNotDividable
  | LoaderNil
  | ConfigNil
  | MinTickNotLess
  | UnableToLoad 'e
  | FailedToSet gcache_error
  | GettingErrored gcache_error

text \<open>\<open>Unwrap\<close> follows the \<^verbatim>\<open>%w\<close> verb of \<^verbatim>\<open>fmt.Errorf\<close>: the error a tearc error wraps.\<close>

fun Unwrap :: "'e tearc_error \<Rightarrow> 'e option" where
  "Unwrap (UnableToLoad e) = Some e"
| "Unwrap _ = None"

record ('arc, 'v, 'i, 'e, 'f) bucket =
  bucket_id :: int
  loader :: "('v, 'i, 'e) LoaderFunc"
  evicted :: "'f EvictedFunc"
  config :: BucketConfig
  arc :: 'arc
  eq :: "nat list"
  items :: item_store
  next_ptr :: nat
  eqPtrMap :: "string \<Rightarrow> nat option"

text \<open>
  \<^verbatim>\<open>loadAndSet\<close>: call the loader; on its error return at once. Otherwise store the
  value in the ARC cache, and with the clock reading \<open>now\<close> create the heap item,
  enter it in the pointer map and push it on the eviction queue.
\<close>

definition loadAndSet ::
  "('arc, 'v) gcache \<Rightarrow> int \<Rightarrow> ('arc, 'v, 'i, 'e, 'f) bucket \<Rightarrow> string \<Rightarrow> 'i
     \<Rightarrow> (('e tearc_error + 'v) \<times> ('arc, 'v, 'i, 'e, 'f) bucket) option" where
  "loadAndSet G now b k loadInfo =
     (case loader b k loadInfo of
        (value, evictIn, Some err) \<Rightarrow> Some (Inl (UnableToLoad err), b)
      | (value, evictIn, None) \<Rightarrow>
          (case arcSet G (arc b) k value of
             (Some err, arc1) \<Rightarrow> Some (Inl (FailedToSet err), b\<lparr>arc := arc1\<rparr>)
           | (None, arc1) \<Rightarrow>
               (let evictionTime = now + evictIn;
                    p = next_ptr b;
                    item = \<lparr>key = k, evictionTime = evictionTime, index = 0\<rparr>;
                    items1 = (items b)(p \<mapsto> item);
                    ptrs = (eqPtrMap b)(k \<mapsto> p)
                in case heap_Push items1 (eq b) p of None \<Rightarrow> None
                   | Some (items2, eq2) \<Rightarrow>
                       Some (Inr value,
                             b\<lparr>arc := arc1, eq := eq2, items := items2,
                               next_ptr := Suc p, eqPtrMap := ptrs\<rparr>))))"

text \<open>
  \<^verbatim>\<open>bucket.Get\<close>: look the key up in the ARC cache. A miss goes to \<^verbatim>\<open>loadAndSet\<close>, any
  other error is returned. On a hit the value is returned; the refresh of the eviction
  time is started in a goroutine of its own and has not run when \<^verbatim>\<open>Get\<close> returns.
\<close>

definition bucket_Get ::
  "('arc, 'v) gcache \<Rightarrow> int \<Rightarrow> ('arc, 'v, 'i, 'e, 'f) bucket \<Rightarrow> string \<Rightarrow> 'i
     \<Rightarrow> (('e tearc_error + 'v) \<times> ('arc, 'v, 'i, 'e, 'f) bucket) option" where
  "bucket_Get G now b k loadInfo =
     (case arcGet G (arc b) k of
        (Inl KeyNotFoundError, arc1) \<Rightarrow> loadAndSet G now (b\<lparr>arc := arc1\<rparr>) k loadInfo
      | (Inl err, arc1) \<Rightarrow> Some (Inl (GettingErrored err), b\<lparr>arc := arc1\<rparr>)
      | (Inr value, arc1) \<Rightarrow> Some (Inr value, b\<lparr>arc := arc1\<rparr>))"

subsection \<open>The cache\<close>

text \<open>
  \<open>loader\<close>, \<open>evicted\<close> and \<open>config\<close> may be \<^verbatim>\<open>nil\<close> in Go: they are options here.
  The seed of \<^verbatim>\<open>maphash.MakeSeed()\<close> is random and the hash is a library function:
  both are parameters (\<open>seed\<close>, \<open>maphash\<close>). The remainder and the quotient of
  \<open>size\<close> by \<open>shards\<close> are taken after both are known to be positive, where Go's \<^verbatim>\<open>%\<close>
  and \<^verbatim>\<open>/\<close> are \<open>mod\<close> and \<open>div\<close>. \<^verbatim>\<open>NewCache\<close> also starts one reaper goroutine for
  each bucket; the goroutines run beside the caller and are no part of the value
  that \<^verbatim>\<open>NewCache\<close> returns.
\<close>

record ('arc, 'v, 'i, 'e, 'f, 's) tearc =
  tsize :: int
  shards :: "64 word"
  jumpSeed :: 's
  buckets :: "('arc, 'v, 'i, 'e, 'f) bucket list"

definition new_bucket ::
  "('arc, 'v) gcache \<Rightarrow> int \<Rightarrow> int \<Rightarrow> ('v, 'i, 'e) LoaderFunc \<Rightarrow> 'f EvictedFunc
     \<Rightarrow> BucketConfig \<Rightarrow> int \<Rightarrow> ('arc, 'v, 'i, 'e, 'f) bucket" where
  "new_bucket G sz sh ld ev cfg i =
     \<lparr>bucket_id = i, loader = ld, evicted = ev, config = cfg,
      arc = Build G (sz div sh), eq = [], items = (\<lambda>_. None),
      next_ptr = 0, eqPtrMap = (\<lambda>_. None)\<rparr>"

definition NewCache ::
  "('arc, 'v) gcache \<Rightarrow> 's \<Rightarrow> int \<Rightarrow> int \<Rightarrow> ('v, 'i, 'e) LoaderFunc option \<Rightarrow> 'f option
     \<Rightarrow> BucketConfig option \<Rightarrow> 'e tearc_error + ('arc, 'v, 'i, 'e, 'f, 's) tearc" where
  "NewCache G seed sz sh ld ev cfg =
     (if sz \<le> 0 then Inl (SizeNotPositive sz)
      else if sh \<le> 0 then Inl (ShardsNotPositive sh)
      else if sz mod sh \<noteq> 0 then Inl SizeNotDividable
      else (case ld of None \<Rightarrow> Inl LoaderNil
        | Some ld1 \<Rightarrow>
           (let ev1 = (case ev of None \<Rightarrow> EmptyCallback | Some f \<Rightarrow> Callback f)
            in case cfg of None \<Rightarrow> Inl ConfigNil
               | Some cfg1 \<Rightarrow>
                  if MinTick cfg1 \<ge> MaxTick cfg1 then Inl MinTickNotLess
                  else Inr \<lparr>tsize = sz, shards = word_of_int sh, jumpSeed = seed,
                            buckets = map (\<lambda>i. new_bucket G sz sh ld1 ev1 cfg1 (int i))
                                          [0 ..< nat sh]\<rparr>)))"

text \<open>
  \<^verbatim>\<open>tearc.Get\<close> picks the bucket \<^verbatim>\<open>hash(key) % shards\<close> and asks it; the result is
  stored back at the same position, as the bucket is updated in place.
\<close>

definition jump :: "('s \<Rightarrow> string \<Rightarrow> 64 word) \<Rightarrow> ('arc, 'v, 'i, 'e, 'f, 's) tearc \<Rightarrow> string \<Rightarrow> nat" where
  "jump maphash t k = unat (maphash (jumpSeed t) k mod shards t)"

definition Get ::
  "('arc, 'v) gcache \<Rightarrow> ('s \<Rightarrow> string \<Rightarrow> 64 word) \<Rightarrow> int \<Rightarrow> ('arc, 'v, 'i, 'e, 'f, 's) tearc
     \<Rightarrow> string \<Rightarrow> 'i \<Rightarrow> (('e tearc_error + 'v) \<times> ('arc, 'v, 'i, 'e, 'f, 's) tearc) option" where
  "Get G maphash now t k loadInfo =
     (let i = jump maphash t k in
      if i < length (buckets t) then
        (case bucket_Get G now (buckets t ! i) k loadInfo of None \<Rightarrow> None
         | Some (r, b1) \<Rightarrow> Some (r, t\<lparr>buckets := (buckets t)[i := b1]\<rparr>))
      else None)"

subsection \<open>A small cache instance\<close>

text \<open>
  The instance of the package's own test: an association list stands for the ARC
  cache, the loader knows \<open>key1\<close> and \<open>key2\<close> and fails on every other key.
\<close>

definition assoc_Build :: "int \<Rightarrow> (string \<times> bytes) list" where
  "assoc_Build n = []"

definition assoc_Get ::
  "(string \<times> bytes) list \<Rightarrow> string \<Rightarrow> (gcache_error + bytes) \<times> (string \<times> bytes) list" where
  "assoc_Get a k = (case map_of a k of None \<Rightarrow> (Inl KeyNotFoundError, a) | Some v \<Rightarrow> (Inr v, a))"

definition assoc_Set ::
  "(string \<times> bytes) list \<Rightarrow> string \<Rightarrow> bytes \<Rightarrow> gcache_error option \<times> (string \<times> bytes) list" where
  "assoc_Set a k v = (None, (k, v) # a)"

definition assoc_cache :: "((string \<times> bytes) list, bytes) gcache" where
  "assoc_cache = \<lparr>Build = assoc_Build, arcGet = assoc_Get, arcSet = assoc_Set\<rparr>"

definition test_loader :: "(bytes, unit, string) LoaderFunc" where
  "test_loader k i =
     (if k = ''key1'' then (bytes_of ''private key 1'', 1000000000, None)
      else if k = ''key2'' then (bytes_of ''private key 2'', 1000000000, None)
      else ([], 0, Some ''unknown key''))"

definition length_hash :: "unit \<Rightarrow> string \<Rightarrow> 64 word" where
  "length_hash s k = of_nat (length k)"

definition test_config :: BucketConfig where
  "test_config = \<lparr>MinTick = 500000000, MaxTick = 3000000000\<rparr>"

definition negative_ticks :: BucketConfig where
  "negative_ticks = \<lparr>MinTick = - 2000000000, MaxTick = - 1000000000\<rparr>"

definition test_bucket :: "int \<Rightarrow> ((string \<times> bytes) list, bytes, unit, string, unit) bucket" where
  "test_bucket i = new_bucket assoc_cache 4 2 test_loader EmptyCallback test_config i"

definition test_cache :: "((string \<times> bytes) list, bytes, unit, string, unit, unit) tearc" where
  "test_cache = \<lparr>tsize = 4, shards = 2, jumpSeed = (), buckets = [test_bucket 0, test_bucket 1]\<rparr>"

section \<open>utils/dvx/totp: the TOTP engine\<close>

record TOTP =
  Secret :: bytes
  Algorithm :: string
  Digits :: int
  Period :: int
  Issuer :: string
  AccountName :: string

datatype totp_error = SecretEmpty | InvalidPeriod | InvalidAlgorithm | InvalidDigits

text \<open>
  The three hash functions of \<^verbatim>\<open>generateOTP\<close> with their digest sizes (\<^verbatim>\<open>sha1.Size\<close>,
  \<^verbatim>\<open>sha256.Size\<close>, \<^verbatim>\<open>sha512.Size\<close>). HMAC itself is the library \<^verbatim>\<open>crypto/hmac\<close>: the
  functions below take it as the parameter \<open>hmac\<close>, where \<open>hmac hsh key msg\<close> is the
  digest \<^verbatim>\<open>Sum(nil)\<close> of \<^verbatim>\<open>hmac.New(hsh, key)\<close> after \<^verbatim>\<open>Write(msg)\<close>. Writing to a
  \<^verbatim>\<open>hash.Hash\<close> never returns an error, so that branch of the source is never taken.
\<close>

datatype hash_alg = sha1 | sha256 | sha512

fun Size :: "hash_alg \<Rightarrow> nat" where
  "Size sha1 = 20"
| "Size sha256 = 32"
| "Size sha512 = 64"

fun select_hash :: "string \<Rightarrow> hash_alg option" where
  "select_hash a =
     (if a = ''SHA1'' then Some sha1
      else if a = ''SHA256'' then Some sha256
      else if a = ''SHA512'' then Some sha512
      else None)"

text \<open>\<^verbatim>\<open>binary.BigEndian.PutUint64\<close> and \<^verbatim>\<open>binary.BigEndian.Uint32\<close>.\<close>

definition PutUint64 :: "64 word \<Rightarrow> bytes" where
  "PutUint64 v =
     [ucast (drop_bit 56 v), ucast (drop_bit 48 v), ucast (drop_bit 40 v), ucast (drop_bit 32 v),
      ucast (drop_bit 24 v), ucast (drop_bit 16 v), ucast (drop_bit 8 v), ucast v]"

definition Uint32 :: "bytes \<Rightarrow> 32 word option" where
  "Uint32 b =
     (if length b < 4 then None
      else Some (ucast (b ! 3) OR push_bit 8 (ucast (b ! 2)) OR push_bit 16 (ucast (b ! 1))
                 OR push_bit 24 (ucast (b ! 0))))"

text \<open>\<^verbatim>\<open>strconv.Itoa\<close>: the decimal digits, most significant first, after a sign.\<close>

definition digit_char :: "nat \<Rightarrow> char" where
  "digit_char d = char_of (48 + d)"

fun utoa :: "nat \<Rightarrow> string" where
  "utoa n = (if n < 10 then [digit_char n] else utoa (n div 10) @ [digit_char (n mod 10)])"

declare utoa.simps [simp del]

definition Itoa :: "int \<Rightarrow> string" where
  "Itoa i = (if i < 0 then CHR ''-'' # utoa (nat (- i)) else utoa (nat i))"

text \<open>
  The loop \<^verbatim>\<open>for len(code) != digits { code = "0" + code }\<close>. It does not end when
  \<open>code\<close> is longer than \<open>digits\<close>; then the result is \<open>None\<close>.
\<close>

partial_function (option) pad_loop :: "int \<Rightarrow> string \<Rightarrow> string option" where
  "pad_loop digits code =
     (if int (length code) \<noteq> digits then pad_loop digits (CHR ''0'' # code) else Some code)"

declare pad_loop.simps [code]

text \<open>
  \<^verbatim>\<open>math.Pow10\<close> is called after the check of \<open>digits\<close>, with 6 or 8 only, where the
  float is the exact power and fits \<^verbatim>\<open>uint32\<close>.
\<close>

definition Pow10 :: "int \<Rightarrow> int" where
  "Pow10 n = 10 ^ nat n"

text \<open>
  \<^verbatim>\<open>generateOTP\<close>. \<open>counter\<close> is the \<^verbatim>\<open>int64\<close> read as \<^verbatim>\<open>uint64\<close>. Reading the last byte
  of an empty digest, or slicing four bytes beyond its end, panics: the result is
  \<open>None\<close>. The check of \<open>digits\<close> comes after the truncation, as in the source.
\<close>

definition generateOTP ::
  "(hash_alg \<Rightarrow> bytes \<Rightarrow> bytes \<Rightarrow> bytes) \<Rightarrow> bytes \<Rightarrow> string \<Rightarrow> int \<Rightarrow> 64 word
     \<Rightarrow> (totp_error + string) option" where
  "generateOTP hmac secret algorithm digits counter =
     (case select_hash algorithm of
        None \<Rightarrow> Some (Inl InvalidAlgorithm)
      | Some hsh \<Rightarrow>
         (let counterBytes = PutUint64 counter;
              h = hmac hsh secret counterBytes
          in if h = [] then None
             else (let offset = unat (last h AND 0xF)
               in if length h < offset + 4 then None
                  else (let h1 = take 4 (drop offset h);
                            h2 = h1[0 := h1 ! 0 AND 0x7F]
                    in case Uint32 h2 of None \<Rightarrow> None
                       | Some decimal \<Rightarrow>
                          if digits \<noteq> 6 \<and> digits \<noteq> 8 then Some (Inl InvalidDigits)
                          else (let otp = decimal mod word_of_int (Pow10 digits);
                                    code = Itoa (uint otp)
                                in map_option Inr (pad_loop digits code))))))"

text \<open>
  Go's integer division truncates towards zero. \<^verbatim>\<open>Generate\<close> reads the clock:
  \<open>now\<close> is \<^verbatim>\<open>time.Now().Unix()\<close>.
\<close>

definition quot :: "int \<Rightarrow> int \<Rightarrow> int" where
  "quot a b = (if (a < 0) = (b < 0) then \<bar>a\<bar> div \<bar>b\<bar> else - (\<bar>a\<bar> div \<bar>b\<bar>))"

definition Generate ::
  "(hash_alg \<Rightarrow> bytes \<Rightarrow> bytes \<Rightarrow> bytes) \<Rightarrow> int \<Rightarrow> TOTP \<Rightarrow> (totp_error + string) option" where
  "Generate hmac now t =
     (if length (Secret t) = 0 then Some (Inl SecretEmpty)
      else if Period t \<noteq> 30 then Some (Inl InvalidPeriod)
      else (let counter = quot now (Period t)
            in generateOTP hmac (Secret t) (Algorithm t) (Digits t) (word_of_int counter)))"

text \<open>
  \<^verbatim>\<open>subtle.ConstantTimeCompare\<close> returns 1 when the two slices have equal contents and
  0 otherwise. \<^verbatim>\<open>Verify\<close> returns the pair \<^verbatim>\<open>(valid, err)\<close>.
\<close>

definition ConstantTimeCompare :: "bytes \<Rightarrow> bytes \<Rightarrow> int" where
  "ConstantTimeCompare x y = (if x = y then 1 else 0)"

definition Verify ::
  "(hash_alg \<Rightarrow> bytes \<Rightarrow> bytes \<Rightarrow> bytes) \<Rightarrow> int \<Rightarrow> TOTP \<Rightarrow> string
     \<Rightarrow> (bool \<times> totp_error option) option" where
  "Verify hmac now t code =
     (case Generate hmac now t of
        None \<Rightarrow> None
      | Some (Inl err) \<Rightarrow> Some (False, None)
      | Some (Inr expected) \<Rightarrow>
          Some (ConstantTimeCompare (bytes_of expected) (bytes_of code) = 1, None))"

subsection \<open>The reference computation of RFC 4226\<close>

text \<open>
  Written from the specification, in arithmetic on natural numbers: the counter as
  eight big-endian bytes; the offset is the low four bits of the last digest byte;
  the value is the big-endian number of the four bytes at the offset with the high bit
  of the first one cleared; the code is the value modulo \<open>10 ^ d\<close>, written with
  exactly \<open>d\<close> decimal digits.
\<close>

definition big_endian8 :: "nat \<Rightarrow> bytes" where
  "big_endian8 n = map (\<lambda>i. of_nat (n div 256 ^ (7 - i) mod 256)) [0 ..< 8]"

definition dynamic_truncation :: "bytes \<Rightarrow> nat" where
  "dynamic_truncation h =
     (let offset = unat (last h) mod 16
      in (unat (h ! offset) mod 128) * 2 ^ 24 + unat (h ! (offset + 1)) * 2 ^ 16
         + unat (h ! (offset + 2)) * 2 ^ 8 + unat (h ! (offset + 3)))"

definition decimal_padded :: "nat \<Rightarrow> nat \<Rightarrow> string" where
  "decimal_padded d n = map (\<lambda>i. digit_char (n div 10 ^ (d - 1 - i) mod 10)) [0 ..< d]"

definition rfc4226_code ::
  "(hash_alg \<Rightarrow> bytes \<Rightarrow> bytes \<Rightarrow> bytes) \<Rightarrow> hash_alg \<Rightarrow> bytes \<Rightarrow> nat \<Rightarrow> 64 word \<Rightarrow> string" where
  "rfc4226_code hmac hsh secret d counter =
     decimal_padded d (dynamic_truncation (hmac hsh secret (big_endian8 (unat counter))) mod 10 ^ d)"

subsection \<open>A test vector\<close>

text \<open>
  Appendix D of RFC 4226: with the secret \<open>12345678901234567890\<close> and counter 1 the
  HMAC-SHA-1 digest is \<open>75a48a19d4cbe100644e8ac1397eea747a2d33ab\<close> and the code is
  \<open>287082\<close>. \<open>rfc4226_hmac\<close> has this digest at this input and a digest of zero bytes
  of the right size everywhere else.
\<close>

definition rfc4226_secret :: bytes where
  "rfc4226_secret = bytes_of ''12345678901234567890''"

definition rfc4226_hmac :: "hash_alg \<Rightarrow> bytes \<Rightarrow> bytes \<Rightarrow> bytes" where
  "rfc4226_hmac hsh k m =
     (if hsh = sha1 \<and> k = rfc4226_secret \<and> m = [0, 0, 0, 0, 0, 0, 0, 1]
      then [0x75, 0xa4, 0x8a, 0x19, 0xd4, 0xcb, 0xe1, 0x00, 0x64, 0x4e,
            0x8a, 0xc1, 0x39, 0x7e, 0xea, 0x74, 0x7a, 0x2d, 0x33, 0xab]
      else replicate (Size hsh) 0)"

definition rfc4226_totp :: TOTP where
  "rfc4226_totp = \<lparr>Secret = rfc4226_secret, Algorithm = ''SHA1'', Digits = 6, Period = 30,
                    Issuer = ''ACME Co'', AccountName = ''john.doe@email.com''\<rparr>"

definition misconfigured_totp :: TOTP where
  "misconfigured_totp = \<lparr>Secret = rfc4226_secret, Algorithm = ''SHA1'', Digits = 7, Period = 30,
                    Issuer = ''ACME Co'', AccountName = ''john.doe@email.com''\<rparr>"

section \<open>encoding/base64: the unpadded encodings of the Go library\<close>

text \<open>
  \<^verbatim>\<open>base64.RawStdEncoding\<close> and \<^verbatim>\<open>base64.RawURLEncoding\<close> belong to Go's standard
  library. They are modelled as the library documents them: no padding character,
  the two alphabets below, and a decoder that is not strict: it ignores the
  characters \<open>\r\<close> and \<open>\n\<close> and the unused low bits of a final partial group.
  The shifts of the library are written as division by powers of two.
\<close>

definition encodeStd :: string where
  "encodeStd = ''ABCDEFGHIJKLMNOPQRSTUVWXYZabcdefghijklmnopqrstuvwxyz0123456789+/''"

definition encodeURL :: string where
  "encodeURL = ''ABCDEFGHIJKLMNOPQRSTUVWXYZabcdefghijklmnopqrstuvwxyz0123456789-_''"

text \<open>The position of the first occurrence (\<^verbatim>\<open>strings.IndexByte\<close>, the decode map).\<close>

fun index_of :: "'a \<Rightarrow> 'a list \<Rightarrow> nat option" where
  "index_of c [] = None"
| "index_of c (x # xs) = (if c = x then Some 0 else map_option Suc (index_of c xs))"

text \<open>
  \<^verbatim>\<open>EncodeToString\<close>: three bytes give four characters; a rest of two bytes gives three
  characters and a rest of one byte gives two, with no padding.
\<close>

fun EncodeToString :: "string \<Rightarrow> bytes \<Rightarrow> string" where
  "EncodeToString enc (b0 # b1 # b2 # src) =
     (let val = unat b0 * 65536 + unat b1 * 256 + unat b2
      in enc ! (val div 262144 mod 64) # enc ! (val div 4096 mod 64)
         # enc ! (val div 64 mod 64) # enc ! (val mod 64) # EncodeToString enc src)"
| "EncodeToString enc [b0, b1] =
     (let val = unat b0 * 65536 + unat b1 * 256
      in [enc ! (val div 262144 mod 64), enc ! (val div 4096 mod 64), enc ! (val div 64 mod 64)])"
| "EncodeToString enc [b0] =
     (let val = unat b0 * 65536
      in [enc ! (val div 262144 mod 64), enc ! (val div 4096 mod 64)])"
| "EncodeToString enc [] = []"

text \<open>
  \<^verbatim>\<open>decodeQuantum\<close>: four 6-bit values are three bytes. The decoder collects the
  values of the characters read in \<open>dbuf\<close>; at the end of the input an empty \<open>dbuf\<close>
  is fine, one value alone is corrupt input, two values give one byte and three
  values give two bytes. A character outside the alphabet is skipped when it is
  \<open>\n\<close> or \<open>\r\<close> and is corrupt input otherwise (\<open>None\<close>).
\<close>

definition quantum :: "nat \<Rightarrow> nat \<Rightarrow> nat \<Rightarrow> nat \<Rightarrow> bytes" where
  "quantum a b c d =
     (let val = a * 262144 + b * 4096 + c * 64 + d
      in [of_nat (val div 65536), of_nat (val div 256), of_nat val])"

fun decode_loop :: "string \<Rightarrow> nat list \<Rightarrow> string \<Rightarrow> bytes option" where
  "decode_loop enc dbuf [] =
     (case dbuf of
        [] \<Rightarrow> Some []
      | [a, b] \<Rightarrow> Some (take 1 (quantum a b 0 0))
      | [a, b, c] \<Rightarrow> Some (take 2 (quantum a b c 0))
      | _ \<Rightarrow> None)"
| "decode_loop enc dbuf (x # src) =
     (case index_of x enc of
        Some v \<Rightarrow>
          (case dbuf of
             [a, b, c] \<Rightarrow> map_option (\<lambda>dst. quantum a b c v @ dst) (decode_loop enc [] src)
           | _ \<Rightarrow> decode_loop enc (dbuf @ [v]) src)
      | None \<Rightarrow>
          if x = CHR 0x0A \<or> x = CHR 0x0D then decode_loop enc dbuf src else None)"

definition DecodeString :: "string \<Rightarrow> string \<Rightarrow> bytes option" where
  "DecodeString enc s = decode_loop enc [] s"

text \<open>
  The strings the decoder accepts, said without the decoder: once \<open>\n\<close> and \<open>\r\<close>
  are dropped, every character is in the alphabet and the length is not 1 modulo 4.
\<close>

definition skipped :: "char \<Rightarrow> bool" where
  "skipped c \<longleftrightarrow> c = CHR 0x0A \<or> c = CHR 0x0D"

definition raw_valid :: "string \<Rightarrow> string \<Rightarrow> bool" where
  "raw_valid enc s =
     (let t = filter (\<lambda>c. \<not> skipped c) s
      in list_all (\<lambda>c. c \<in> set enc) t \<and> length t mod 4 \<noteq> 1)"

section \<open>utils/dvx: the envelope codec (encoding.go)\<close>

definition Version :: string where
  "Version = ''dv1''"

type_synonym TypePrefix = string

definition Encrypted :: TypePrefix where "Encrypted = ''enc''"

definition Signed :: TypePrefix where "Signed = ''sig''"

definition Tagged :: TypePrefix where "Tagged = ''tag''"

definition TOTP_prefix :: TypePrefix where "TOTP_prefix = ''totp''"

datatype dvx_error =
    Expected3Parts
  | UnknownVersion string
  | UnknownTypePrefix string
  | DataNotRawBase64URL
  | IncorrectTypePrefix
  | MacKeyLength
  | KeyLength
  | RandomReadFailed
  | CipherTooShort
  | OpenFailed
  | CannotGenerateTotpId
  | PoolError string
  | TotpFailure totp_error
  | PrivateKeyLength
  | PublicKeyLength
  | SignatureLength

definition Encode :: "TypePrefix \<Rightarrow> bytes \<Rightarrow> string" where
  "Encode typePrefix data = Version @ ''.'' @ typePrefix @ ''.'' @ EncodeToString encodeURL data"

text \<open>
  \<^verbatim>\<open>strings.SplitN(s, sep, n)\<close> for a separator of one byte: at most \<open>n\<close> parts, the
  last one being the rest of the string, unsplit.
\<close>

fun SplitN :: "string \<Rightarrow> char \<Rightarrow> nat \<Rightarrow> string list" where
  "SplitN s sep 0 = []"
| "SplitN s sep (Suc 0) = [s]"
| "SplitN s sep (Suc (Suc n)) =
     (case index_of sep s of
        None \<Rightarrow> [s]
      | Some m \<Rightarrow> take m s # SplitN (drop (m + 1) s) sep (Suc n))"

definition Decode :: "string \<Rightarrow> dvx_error + (string \<times> TypePrefix \<times> bytes)" where
  "Decode s =
     (let parts = SplitN s CHR ''.'' 3
      in if length parts \<noteq> 3 then Inl Expected3Parts
         else (let version = parts ! 0
           in if version \<noteq> ''dv1'' then Inl (UnknownVersion version)
              else (let typePrefix = parts ! 1
                in if typePrefix \<noteq> Encrypted \<and> typePrefix \<noteq> Signed
                      \<and> typePrefix \<noteq> Tagged \<and> typePrefix \<noteq> TOTP_prefix
                   then Inl (UnknownTypePrefix typePrefix)
                   else (case DecodeString encodeURL (parts ! 2) of
                           None \<Rightarrow> Inl DataNotRawBase64URL
                         | Some data \<Rightarrow> Inr (version, typePrefix, data)))))"

definition DecodeExpect :: "string \<Rightarrow> TypePrefix \<Rightarrow> dvx_error + (string \<times> bytes)" where
  "DecodeExpect s expected =
     (case Decode s of
        Inl err \<Rightarrow> Inl err
      | Inr (v, p, d) \<Rightarrow> if p \<noteq> expected then Inl IncorrectTypePrefix else Inr (v, d))"

text \<open>
  The dot-separated segments of a string, as the specification counts them: every
  dot separates, so a string with \<open>k\<close> dots has \<open>k + 1\<close> segments.
\<close>

fun segments :: "string \<Rightarrow> string list" where
  "segments [] = [[]]"
| "segments (c # cs) =
     (if c = CHR ''.'' then [] # segments cs
      else (case segments cs of x # xs \<Rightarrow> (c # x) # xs | [] \<Rightarrow> [[c]]))"

section \<open>utils/dvx: key rings (Protocol.keyRingToBytes)\<close>

text \<open>
  \<^verbatim>\<open>strings.IndexRune\<close> of an ASCII rune is the index of its first byte, or \<open>-1\<close>.
\<close>

definition IndexRune :: "string \<Rightarrow> char \<Rightarrow> int" where
  "IndexRune s r = (case index_of r s of None \<Rightarrow> - 1 | Some i \<Rightarrow> int i)"

definition keyRingToBytes :: "string \<Rightarrow> bytes" where
  "keyRingToBytes keyRing =
     (let idx = IndexRune keyRing CHR '':''
      in if idx = - 1 then bytes_of keyRing
         else (case DecodeString encodeStd (drop (nat (idx + 1)) keyRing) of
                 None \<Rightarrow> bytes_of keyRing
               | Some base64Buf \<Rightarrow> base64Buf))"

section \<open>utils/dvx: the primitive DV1 (dv1.go)\<close>

text \<open>
  The cryptography is done by libraries: keyed BLAKE2b (\<^verbatim>\<open>blake2b.New256\<close>,
  \<^verbatim>\<open>blake2b.New512\<close>, as \<open>key\<close> then \<open>message\<close>), XChaCha20-Poly1305
  (\<^verbatim>\<open>aead.Seal\<close> and \<^verbatim>\<open>aead.Open\<close>, as \<open>key\<close>, \<open>nonce\<close>, text and associated data),
  HMAC, and for the TOTP URI \<^verbatim>\<open>url.PathEscape\<close> and unpadded base32. They are the
  fields of one record \<open>L\<close> that the functions below take as a parameter.
\<close>

record library =
  blake2b_256 :: "bytes \<Rightarrow> bytes \<Rightarrow> bytes"
  blake2b_512 :: "bytes \<Rightarrow> bytes \<Rightarrow> bytes"
  aead_Seal :: "bytes \<Rightarrow> bytes \<Rightarrow> bytes \<Rightarrow> bytes \<Rightarrow> bytes"
  aead_Open :: "bytes \<Rightarrow> bytes \<Rightarrow> bytes \<Rightarrow> bytes \<Rightarrow> bytes option"
  hmac_Sum :: "hash_alg \<Rightarrow> bytes \<Rightarrow> bytes \<Rightarrow> bytes"
  PathEscape :: "string \<Rightarrow> string"
  base32_NoPadding :: "bytes \<Rightarrow> string"

text \<open>
  \<^verbatim>\<open>io.ReadFull(rand.Reader, buf)\<close> fills the \<open>n\<close> bytes of \<open>buf\<close> or fails. The
  random source is the bytes it is going to deliver, or \<open>None\<close> for a failing reader.
\<close>

definition ReadFull :: "bytes option \<Rightarrow> nat \<Rightarrow> bytes option" where
  "ReadFull reader n =
     (case reader of
        None \<Rightarrow> None
      | Some stream \<Rightarrow> if length stream < n then None else Some (take n stream))"

definition MAC256 :: "library \<Rightarrow> bytes \<Rightarrow> bytes \<Rightarrow> dvx_error + bytes" where
  "MAC256 L k message =
     (if length k \<noteq> 64 then Inl MacKeyLength else Inr (blake2b_256 L k message))"

definition MAC512 :: "library \<Rightarrow> bytes \<Rightarrow> bytes \<Rightarrow> dvx_error + bytes" where
  "MAC512 L k message =
     (if length k \<noteq> 64 then Inl MacKeyLength else Inr (blake2b_512 L k message))"

text \<open>
  \<^verbatim>\<open>Encrypt\<close>: a key of 32 bytes (\<^verbatim>\<open>chacha20poly1305.KeySize\<close>), a fresh nonce of 24
  bytes (\<^verbatim>\<open>NonceSizeX\<close>), associated data \<open>Version\<close> followed by the nonce; the result
  is the nonce followed by the sealed text.
\<close>

definition Encrypt :: "library \<Rightarrow> bytes option \<Rightarrow> bytes \<Rightarrow> bytes \<Rightarrow> dvx_error + bytes" where
  "Encrypt L reader k data =
     (if length k \<noteq> 32 then Inl KeyLength
      else (case ReadFull reader 24 of
              None \<Rightarrow> Inl RandomReadFailed
            | Some nonce \<Rightarrow>
                (let encrypted = aead_Seal L k nonce data (bytes_of Version @ nonce)
                 in Inr (nonce @ encrypted))))"

definition Decrypt :: "library \<Rightarrow> bytes \<Rightarrow> bytes \<Rightarrow> dvx_error + bytes" where
  "Decrypt L k cipher =
     (if length k \<noteq> 32 then Inl KeyLength
      else if length cipher < 24 then Inl CipherTooShort
      else (let nonce = take 24 cipher;
                encrypted = drop 24 cipher
            in case aead_Open L k nonce encrypted (bytes_of Version @ nonce) of
                 None \<Rightarrow> Inl OpenFailed
               | Some data \<Rightarrow> Inr data))"

section \<open>utils/dvx: the software key pool (WrapDVXAsKeyPool)\<close>

text \<open>
  The pool keeps the slice it is given: the root key buffer is shared with the
  caller. Buffers live in a memory \<open>mem\<close> from addresses to contents; a slice is the
  address of its buffer, and \<open>None\<close> is the \<^verbatim>\<open>nil\<close> slice, of length 0. The audit log
  written by \<^verbatim>\<open>kdf\<close> is left out.
\<close>

type_synonym memory = "nat \<Rightarrow> bytes option"

record Primitive =
  prim_MAC256 :: "bytes \<Rightarrow> bytes \<Rightarrow> dvx_error + bytes"
  prim_MAC512 :: "bytes \<Rightarrow> bytes \<Rightarrow> dvx_error + bytes"

definition DV1 :: "library \<Rightarrow> Primitive" where
  "DV1 L = \<lparr>prim_MAC256 = MAC256 L, prim_MAC512 = MAC512 L\<rparr>"

record dvxWrapper =
  dvx :: Primitive
  rootKey :: "nat option"

definition slice_bytes :: "memory \<Rightarrow> nat option \<Rightarrow> bytes" where
  "slice_bytes mem sl =
     (case sl of None \<Rightarrow> [] | Some a \<Rightarrow> (case mem a of None \<Rightarrow> [] | Some b \<Rightarrow> b))"

definition WrapDVXAsKeyPool :: "Primitive \<Rightarrow> nat option \<Rightarrow> dvxWrapper" where
  "WrapDVXAsKeyPool p rk = \<lparr>dvx = p, rootKey = rk\<rparr>"

definition kdf ::
  "memory \<Rightarrow> dvxWrapper \<Rightarrow> bytes \<Rightarrow> (bytes \<Rightarrow> bytes \<Rightarrow> dvx_error + bytes) \<Rightarrow> dvx_error + bytes" where
  "kdf mem d keyRing mac =
     (case mac (slice_bytes mem (rootKey d)) keyRing of
        Inl err \<Rightarrow> Inl err
      | Inr k \<Rightarrow> Inr k)"

definition wrapper_KDF32 :: "memory \<Rightarrow> dvxWrapper \<Rightarrow> bytes \<Rightarrow> dvx_error + bytes" where
  "wrapper_KDF32 mem d keyRing = kdf mem d keyRing (prim_MAC256 (dvx d))"

definition wrapper_KDF64 :: "memory \<Rightarrow> dvxWrapper \<Rightarrow> bytes \<Rightarrow> dvx_error + bytes" where
  "wrapper_KDF64 mem d keyRing = kdf mem d keyRing (prim_MAC512 (dvx d))"

text \<open>
  \<^verbatim>\<open>Close\<close> assigns \<^verbatim>\<open>nil\<close> to the field and returns a \<^verbatim>\<open>nil\<close> error. The result is
  the error, the memory and the pool after the call.
\<close>

definition wrapper_Close ::
  "memory \<Rightarrow> dvxWrapper \<Rightarrow> dvx_error option \<times> memory \<times> dvxWrapper" where
  "wrapper_Close mem d = (None, mem, d\<lparr>rootKey := None\<rparr>)"

section \<open>utils/dvx: the protocol\<close>

text \<open>
  A \<^verbatim>\<open>KeyPool\<close> is an interface; the protocol uses its two derivation functions. The
  protocol holds a map from versions to pools. Calling a method of a pool that the
  map does not hold panics (\<open>None\<close>).
\<close>

record KeyPool =
  KDF32 :: "bytes \<Rightarrow> dvx_error + bytes"
  KDF64 :: "bytes \<Rightarrow> dvx_error + bytes"

record Protocol =
  keys :: "string \<Rightarrow> KeyPool option"

text \<open>
  \<^verbatim>\<open>Encrypt\<close>, \<^verbatim>\<open>Decrypt\<close> and \<^verbatim>\<open>MAC\<close> of the protocol. \<^verbatim>\<open>decrypt\<close> switches on the
  version of the envelope and returns \<^verbatim>\<open>(nil, nil)\<close> for a version it does not know.
\<close>

definition Protocol_Encrypt ::
  "library \<Rightarrow> Protocol \<Rightarrow> bytes option \<Rightarrow> string \<Rightarrow> bytes \<Rightarrow> (dvx_error + string) option" where
  "Protocol_Encrypt L p reader keyRing data =
     (case keys p Version of
        None \<Rightarrow> None
      | Some pool \<Rightarrow>
          Some (case KDF32 pool (keyRingToBytes keyRing) of
                  Inl err \<Rightarrow> Inl err
                | Inr k \<Rightarrow>
                    (case Encrypt L reader k data of
                       Inl err \<Rightarrow> Inl err
                     | Inr cipher \<Rightarrow> Inr (Encode Encrypted cipher))))"

definition decrypt ::
  "library \<Rightarrow> Protocol \<Rightarrow> bytes \<Rightarrow> bytes \<Rightarrow> string \<Rightarrow> (dvx_error + bytes) option" where
  "decrypt L p keyRing cipher version =
     (if version = ''dv1'' then
        (case keys p version of
           None \<Rightarrow> None
         | Some pool \<Rightarrow>
             Some (case KDF32 pool keyRing of
                     Inl err \<Rightarrow> Inl err
                   | Inr k \<Rightarrow> Decrypt L k cipher))
      else Some (Inr []))"

definition Protocol_Decrypt ::
  "library \<Rightarrow> Protocol \<Rightarrow> string \<Rightarrow> string \<Rightarrow> (dvx_error + bytes) option" where
  "Protocol_Decrypt L p keyRing ciphertext =
     (case DecodeExpect ciphertext Encrypted of
        Inl err \<Rightarrow> Some (Inl err)
      | Inr (v, d) \<Rightarrow> decrypt L p (keyRingToBytes keyRing) d v)"

definition Protocol_MAC ::
  "library \<Rightarrow> Protocol \<Rightarrow> string \<Rightarrow> bytes \<Rightarrow> (dvx_error + string) option" where
  "Protocol_MAC L p keyRing message =
     (case keys p Version of
        None \<Rightarrow> None
      | Some pool \<Rightarrow>
          Some (case KDF64 pool (keyRingToBytes keyRing) of
                  Inl err \<Rightarrow> Inl err
                | Inr k \<Rightarrow>
                    (case MAC512 L k message of
                       Inl err \<Rightarrow> Inl err
                     | Inr buffer \<Rightarrow> Inr (Encode Tagged buffer))))"

definition deriveTOTPKey ::
  "library \<Rightarrow> Protocol \<Rightarrow> bytes \<Rightarrow> bytes \<Rightarrow> string \<Rightarrow> string \<Rightarrow> (dvx_error + bytes) option" where
  "deriveTOTPKey L p keyRing rawID accountID version =
     (if version = ''dv1'' then
        (case keys p Version of
           None \<Rightarrow> None
         | Some pool \<Rightarrow>
             Some (case KDF64 pool keyRing of
                     Inl err \<Rightarrow> Inl err
                   | Inr totpSK \<Rightarrow>
                       (case MAC512 L totpSK rawID of
                          Inl err \<Rightarrow> Inl err
                        | Inr intermediate \<Rightarrow>
                            (case MAC256 L intermediate (bytes_of accountID) of
                               Inl err \<Rightarrow> Inl err
                             | Inr k \<Rightarrow> Inr k))))
      else Some (Inr []))"

text \<open>\<^verbatim>\<open>TOTP.URI\<close>, with the escaping and the base32 of the libraries.\<close>

definition URI :: "library \<Rightarrow> TOTP \<Rightarrow> string" where
  "URI L t =
     (let issuer = PathEscape L (Issuer t)
      in ''otpauth'' @ ''://'' @ ''totp'' @ ''/'' @ issuer @ '':'' @ PathEscape L (AccountName t)
         @ ''?secret='' @ base32_NoPadding L (Secret t)
         @ ''&issuer='' @ issuer
         @ ''&algorithm='' @ Algorithm t
         @ ''&digits='' @ Itoa (Digits t)
         @ ''&period='' @ Itoa (Period t))"

definition GenerateTOTP ::
  "library \<Rightarrow> Protocol \<Rightarrow> bytes option \<Rightarrow> string \<Rightarrow> string \<Rightarrow> string \<Rightarrow> string
     \<Rightarrow> (dvx_error + string \<times> string) option" where
  "GenerateTOTP L p reader keyRing issuer accountName accountID =
     (case ReadFull reader 32 of
        None \<Rightarrow> Some (Inl CannotGenerateTotpId)
      | Some rawID \<Rightarrow>
          (let ident = Encode TOTP_prefix rawID
           in case deriveTOTPKey L p (keyRingToBytes keyRing) rawID accountID Version of
                None \<Rightarrow> None
              | Some (Inl err) \<Rightarrow> Some (Inl err)
              | Some (Inr k) \<Rightarrow>
                  Some (Inr (ident,
                             URI L \<lparr>Secret = k, Algorithm = ''SHA256'', Digits = 6, Period = 30,
                                    Issuer = issuer, AccountName = accountName\<rparr>))))"

definition VerifyTOTP ::
  "library \<Rightarrow> Protocol \<Rightarrow> int \<Rightarrow> string \<Rightarrow> string \<Rightarrow> string \<Rightarrow> string
     \<Rightarrow> (dvx_error + bool) option" where
  "VerifyTOTP L p now keyRing ident accountID code =
     (case DecodeExpect ident TOTP_prefix of
        Inl err \<Rightarrow> Some (Inl err)
      | Inr (v, rawID) \<Rightarrow>
          (case deriveTOTPKey L p (keyRingToBytes keyRing) rawID accountID v of
             None \<Rightarrow> None
           | Some (Inl err) \<Rightarrow> Some (Inl err)
           | Some (Inr k) \<Rightarrow>
               if v = ''dv1'' then
                 (case Verify (hmac_Sum L) now
                         \<lparr>Secret = k, Algorithm = ''SHA256'', Digits = 6, Period = 30,
                          Issuer = [], AccountName = []\<rparr> code of
                    None \<Rightarrow> None
                  | Some (valid, None) \<Rightarrow> Some (Inr valid)
                  | Some (valid, Some err) \<Rightarrow> Some (Inl (TotpFailure err)))
               else Some (Inr False)))"

subsection \<open>The derivation chain of the specification\<close>

text \<open>
  \<open>totpSK = KDF64(kr)\<close>, \<open>intermediate = MAC512(totpSK, rawID)\<close>,
  \<open>totpSecret = MAC256(intermediate, accountID)\<close>, and the TOTP object of the protocol.
\<close>

definition totp_secret :: "library \<Rightarrow> KeyPool \<Rightarrow> bytes \<Rightarrow> bytes \<Rightarrow> string \<Rightarrow> dvx_error + bytes" where
  "totp_secret L pool kr rawID accountID =
     (case KDF64 pool kr of
        Inl err \<Rightarrow> Inl err
      | Inr totpSK \<Rightarrow>
          (case MAC512 L totpSK rawID of
             Inl err \<Rightarrow> Inl err
           | Inr intermediate \<Rightarrow> MAC256 L intermediate (bytes_of accountID)))"

definition protocol_totp :: "bytes \<Rightarrow> string \<Rightarrow> string \<Rightarrow> TOTP" where
  "protocol_totp secret issuer accountName =
     \<lparr>Secret = secret, Algorithm = ''SHA256'', Digits = 6, Period = 30,
      Issuer = issuer, AccountName = accountName\<rparr>"

subsection \<open>Stand-ins for the libraries\<close>

text \<open>
  Functions with the sizes and the open-after-seal law of the libraries, to run the
  model on examples: the MACs return zero bytes of the digest size, sealing appends
  a tag of 16 zero bytes and opening removes it.
\<close>

definition standin_Seal :: "bytes \<Rightarrow> bytes \<Rightarrow> bytes \<Rightarrow> bytes \<Rightarrow> bytes" where
  "standin_Seal k nonce plaintext ad = plaintext @ replicate 16 0"

definition standin_Open :: "bytes \<Rightarrow> bytes \<Rightarrow> bytes \<Rightarrow> bytes \<Rightarrow> bytes option" where
  "standin_Open k nonce ciphertext ad =
     (if length ciphertext < 16 then None else Some (take (length ciphertext - 16) ciphertext))"

definition standin_MAC256 :: "bytes \<Rightarrow> bytes \<Rightarrow> bytes" where
  "standin_MAC256 k message = replicate 32 0"

definition standin_MAC512 :: "bytes \<Rightarrow> bytes \<Rightarrow> bytes" where
  "standin_MAC512 k message = replicate 64 0"

definition standin_escape :: "string \<Rightarrow> string" where
  "standin_escape s = s"

definition standin_base32 :: "bytes \<Rightarrow> string" where
  "standin_base32 b = replicate (length b) CHR ''A''"

definition standin :: library where
  "standin = \<lparr>blake2b_256 = standin_MAC256, blake2b_512 = standin_MAC512,
              aead_Seal = standin_Seal, aead_Open = standin_Open,
              hmac_Sum = rfc4226_hmac, PathEscape = standin_escape,
              base32_NoPadding = standin_base32\<rparr>"

definition test_root :: bytes where
  "test_root = replicate 64 42"

definition test_mem :: memory where
  "test_mem a = (if a = 0 then Some test_root else None)"

definition test_wrapper :: dvxWrapper where
  "test_wrapper = WrapDVXAsKeyPool (DV1 standin) (Some 0)"




section \<open>utils/dvx: signatures (dv1.go and the protocol)\<close>

text \<open>
  Ed25519 is the library \<^verbatim>\<open>crypto/ed25519\<close>: \<^verbatim>\<open>NewKeyFromSeed\<close>, \<^verbatim>\<open>Sign\<close> and \<^verbatim>\<open>Verify\<close> are
  the fields of a record \<open>E\<close>. \<^verbatim>\<open>NewKeyFromSeed\<close> panics on a seed that has not 32 bytes
  (\<open>None\<close>). \<^verbatim>\<open>PrivateKey.Public\<close> copies the bytes from position 32 on into a fresh
  slice of 32 bytes, and panics on a private key shorter than 32 bytes.
\<close>

record ed25519 =
  NewKeyFromSeed :: "bytes \<Rightarrow> bytes"
  ed25519_Sign :: "bytes \<Rightarrow> bytes \<Rightarrow> bytes"
  ed25519_Verify :: "bytes \<Rightarrow> bytes \<Rightarrow> bytes \<Rightarrow> bool"

definition Public :: "bytes \<Rightarrow> bytes option" where
  "Public priv =
     (if length priv < 32 then None else Some (take 32 (drop 32 priv @ replicate 32 0)))"

definition DV1_Sign :: "ed25519 \<Rightarrow> bytes \<Rightarrow> bytes \<Rightarrow> dvx_error + bytes" where
  "DV1_Sign E privateKey message =
     (if length privateKey \<noteq> 64 then Inl PrivateKeyLength
      else Inr (ed25519_Sign E privateKey message))"

definition DV1_Verify :: "ed25519 \<Rightarrow> bytes \<Rightarrow> bytes \<Rightarrow> bytes \<Rightarrow> dvx_error + bool" where
  "DV1_Verify E publicKey message signature =
     (if length publicKey \<noteq> 32 then Inl PublicKeyLength
      else if length signature \<noteq> 64 then Inl SignatureLength
      else Inr (ed25519_Verify E publicKey message signature))"

text \<open>
  \<^verbatim>\<open>deriveSignKey\<close> takes the seed from \<^verbatim>\<open>KDF32\<close> of the pool of the current version; for
  a version it does not know it returns \<^verbatim>\<open>(nil, nil)\<close>.
\<close>

definition deriveSignKey ::
  "ed25519 \<Rightarrow> Protocol \<Rightarrow> bytes \<Rightarrow> string \<Rightarrow> (dvx_error + bytes) option" where
  "deriveSignKey E p keyRing version =
     (if version = ''dv1'' then
        (case keys p Version of
           None \<Rightarrow> None
         | Some pool \<Rightarrow>
             (case KDF32 pool keyRing of
                Inl err \<Rightarrow> Some (Inl err)
              | Inr seed \<Rightarrow>
                  if length seed \<noteq> 32 then None else Some (Inr (NewKeyFromSeed E seed))))
      else Some (Inr []))"

definition Protocol_CreateSignKey ::
  "ed25519 \<Rightarrow> Protocol \<Rightarrow> string \<Rightarrow> (dvx_error + bytes) option" where
  "Protocol_CreateSignKey E p keyRing =
     (case deriveSignKey E p (keyRingToBytes keyRing) Version of
        None \<Rightarrow> None
      | Some (Inl err) \<Rightarrow> Some (Inl err)
      | Some (Inr privateKey) \<Rightarrow> map_option Inr (Public privateKey))"

definition Protocol_Sign ::
  "ed25519 \<Rightarrow> Protocol \<Rightarrow> string \<Rightarrow> bytes \<Rightarrow> (dvx_error + string \<times> bytes) option" where
  "Protocol_Sign E p keyRing message =
     (case deriveSignKey E p (keyRingToBytes keyRing) Version of
        None \<Rightarrow> None
      | Some (Inl err) \<Rightarrow> Some (Inl err)
      | Some (Inr k) \<Rightarrow>
          Some (case DV1_Sign E k message of
                  Inl err \<Rightarrow> Inl err
                | Inr sig \<Rightarrow> Inr (Encode Signed sig, sig)))"

definition verifyPK ::
  "ed25519 \<Rightarrow> bytes \<Rightarrow> bytes \<Rightarrow> bytes \<Rightarrow> string \<Rightarrow> dvx_error + bool" where
  "verifyPK E publicKey message signature version =
     (if version = ''dv1'' then DV1_Verify E publicKey message signature else Inr False)"

definition verify ::
  "ed25519 \<Rightarrow> Protocol \<Rightarrow> bytes \<Rightarrow> bytes \<Rightarrow> bytes \<Rightarrow> string \<Rightarrow> (dvx_error + bool) option" where
  "verify E p keyRing message signature version =
     (if version = ''dv1'' then
        (case deriveSignKey E p keyRing ''dv1'' of
           None \<Rightarrow> None
         | Some (Inl err) \<Rightarrow> Some (Inl err)
         | Some (Inr privateKey) \<Rightarrow>
             (case Public privateKey of
                None \<Rightarrow> None
              | Some publicKey \<Rightarrow> Some (verifyPK E publicKey message signature version)))
      else Some (verifyPK E [] message signature version))"

definition Protocol_Verify ::
  "ed25519 \<Rightarrow> Protocol \<Rightarrow> string \<Rightarrow> bytes \<Rightarrow> string \<Rightarrow> (dvx_error + bool) option" where
  "Protocol_Verify E p keyRing message signature =
     (case DecodeExpect signature Signed of
        Inl err \<Rightarrow> Some (Inl err)
      | Inr (v, sig) \<Rightarrow> verify E p (keyRingToBytes keyRing) message sig v)"

subsection \<open>A pool that shows its input\<close>

text \<open>
  A key pool whose keys are the first bytes of the key ring bytes it is given, filled
  up with zeros, so that the key tells which bytes reached the derivation.
\<close>

definition echo_KDF32 :: "bytes \<Rightarrow> dvx_error + bytes" where
  "echo_KDF32 kr = Inr (take 32 (kr @ replicate 32 0))"

definition echo_KDF64 :: "bytes \<Rightarrow> dvx_error + bytes" where
  "echo_KDF64 kr = Inr (take 64 (kr @ replicate 64 0))"

definition echo_pool :: KeyPool where
  "echo_pool = \<lparr>KDF32 = echo_KDF32, KDF64 = echo_KDF64\<rparr>"

definition echo_keys :: "string \<Rightarrow> KeyPool option" where
  "echo_keys v = (if v = Version then Some echo_pool else None)"

definition echo_protocol :: Protocol where
  "echo_protocol = \<lparr>keys = echo_keys\<rparr>"

text \<open>
  A stand-in for Ed25519 in the same spirit: the private key is the seed twice, so that
  the public key is the seed, and a signature is the private key it was made with.
\<close>

definition echo_NewKeyFromSeed :: "bytes \<Rightarrow> bytes" where
  "echo_NewKeyFromSeed seed = seed @ seed"

definition echo_Sign :: "bytes \<Rightarrow> bytes \<Rightarrow> bytes" where
  "echo_Sign privateKey message = privateKey"

definition echo_Verify :: "bytes \<Rightarrow> bytes \<Rightarrow> bytes \<Rightarrow> bool" where
  "echo_Verify publicKey message sig = (take 32 sig = publicKey)"

definition echo_ed25519 :: ed25519 where
  "echo_ed25519 = \<lparr>NewKeyFromSeed = echo_NewKeyFromSeed, ed25519_Sign = echo_Sign,
                    ed25519_Verify = echo_Verify\<rparr>"

section \<open>Verified properties\<close>

subsection \<open>utils/tearc\<close>

text \<open>
  C8, as the code has it. \<^verbatim>\<open>NewCache\<close> returns an error whenever \<open>size \<le> 0\<close>, or
  \<open>shards \<le> 0\<close>, or \<open>size % shards \<noteq> 0\<close>, or the loader is nil, or the config is nil,
  or \<open>MinTick \<ge> MaxTick\<close>. It returns a cache, with \<open>shards\<close> buckets of capacity
  \<open>size / shards\<close> each and empty queues, for every configuration with \<open>size > 0\<close>,
  \<open>shards > 0\<close>, \<open>size % shards = 0\<close>, a loader, and ticks \<open>0 < MinTick < MaxTick\<close>.
\<close>

theorem NewCache_validation:
  "(sz \<le> 0 \<or> sh \<le> 0 \<or> sz mod sh \<noteq> 0 \<or> ld = None \<or> cfg = None
      \<or> (\<exists>c. cfg = Some c \<and> MaxTick c \<le> MinTick c)
      \<longrightarrow> isl (NewCache G seed sz sh ld ev cfg))
   \<and> (0 < sz \<and> 0 < sh \<and> sz mod sh = 0 \<and> ld = Some l \<and> cfg = Some c
        \<and> 0 < MinTick c \<and> MinTick c < MaxTick c
      \<longrightarrow> (\<exists>t. NewCache G seed sz sh ld ev cfg = Inr t
               \<and> tsize t = sz \<and> length (buckets t) = nat sh
               \<and> (\<forall>b \<in> set (buckets t).
                     arc b = Build G (sz div sh) \<and> eq b = [] \<and> eqPtrMap b = (\<lambda>k. None)
                     \<and> config b = c \<and> loader b = l)))"
  by (auto simp: NewCache_def Let_def new_bucket_def split: option.splits)

theorem NewCache_validation_witness:
  "isl (NewCache assoc_cache () 4 3 (Some test_loader) None (Some test_config))
   \<and> isl (NewCache assoc_cache () 4 2 (Some test_loader) None None)
   \<and> NewCache assoc_cache () 4 2 (Some test_loader) None (Some test_config) = Inr test_cache"
proof -
  have "[0 ..< nat 2] = [0, Suc 0]"
    by (simp add: upt_rec)
  then have "NewCache assoc_cache () 4 2 (Some test_loader) None (Some test_config) = Inr test_cache"
    by (simp add: NewCache_def test_config_def test_cache_def test_bucket_def)
  then show ?thesis
    using NewCache_validation [where sz = 4 and sh = 3 and ld = "Some test_loader"
        and cfg = "Some test_config" and G = assoc_cache and seed = "()" and ev = None]
      NewCache_validation [where sz = 4 and sh = 2 and ld = "Some test_loader"
        and cfg = None and G = assoc_cache and seed = "()" and ev = None]
    by simp
qed

text \<open>
  C8, as the claim states it, fails in both directions. A configuration with
  \<open>size = 0\<close>, \<open>shards = 1\<close> and positive ticks \<open>500ms < 3s\<close> satisfies the three listed
  constraints, yet \<^verbatim>\<open>NewCache\<close> returns an error. A configuration whose two ticks are
  negative (\<open>-2s < -1s\<close>) violates "all durations positive", yet \<^verbatim>\<open>NewCache\<close> returns
  no error.
\<close>

theorem NewCache_counterexample:
  "NewCache assoc_cache () 0 1 (Some test_loader) None (Some test_config)
     = Inl (SizeNotPositive 0)
   \<and> \<not> isl (NewCache assoc_cache () 4 2 (Some test_loader) None (Some negative_ticks))"
  by (simp add: NewCache_def negative_ticks_def test_config_def)

text \<open>
  In a cache that \<^verbatim>\<open>NewCache\<close> has built, the index of the bucket of a key is always
  in range (\<open>shards\<close> is an \<^verbatim>\<open>int\<close>, below \<open>2 ^ 63\<close>).
\<close>

lemma NewCache_jump_in_range:
  assumes "NewCache G seed sz sh ld ev cfg = Inr t" and "sh < 2 ^ 63"
  shows "jump maphash t k < length (buckets t)"
proof -
  have pos: "0 < sh"
    using assms(1) by (auto simp: NewCache_def split: if_splits)
  have t: "shards t = word_of_int sh" "length (buckets t) = nat sh"
    using assms(1) by (auto simp: NewCache_def Let_def split: if_splits option.splits)
  have "sh < 2 ^ LENGTH(64)"
    using assms(2) by simp
  then have u: "unat (word_of_int sh :: 64 word) = nat sh"
    using pos by (simp add: unat_eq_nat_uint word_of_int_inverse take_bit_int_eq_self uint_word_of_int_eq)
  have "unat (maphash (jumpSeed t) k mod shards t) = unat (maphash (jumpSeed t) k) mod nat sh"
    by (simp add: unat_mod_distrib t u)
  also have "\<dots> < nat sh"
    using pos by simp
  finally show ?thesis
    by (simp add: jump_def t)
qed

text \<open>
  C9. Let the bucket chosen for the key be \<open>b\<close>, let the lookup in its ARC cache miss
  and leave the ARC state \<open>a1\<close>, and let the loader return an error \<open>e\<close>. Then
  \<^verbatim>\<open>loadAndSet\<close>, \<^verbatim>\<open>bucket.Get\<close> and \<^verbatim>\<open>Cache.Get\<close> all return the error that wraps \<open>e\<close>, and
  the bucket they leave is \<open>b\<close> with the ARC state of the lookup: nothing is set in the
  ARC cache, and the eviction queue, the heap items and the pointer map are the ones
  before the call. When the missed lookup leaves the ARC cache as it was, the whole
  cache is unchanged.
\<close>

theorem Get_loader_failure_atomic:
  assumes "jump maphash t k < length (buckets t)"
    and "b = buckets t ! jump maphash t k"
    and "arcGet G (arc b) k = (Inl KeyNotFoundError, a1)"
    and "loader b k i = (v, d, Some e)"
  shows "loadAndSet G now (b\<lparr>arc := a1\<rparr>) k i = Some (Inl (UnableToLoad e), b\<lparr>arc := a1\<rparr>)
    \<and> bucket_Get G now b k i = Some (Inl (UnableToLoad e), b\<lparr>arc := a1\<rparr>)
    \<and> Get G maphash now t k i
        = Some (Inl (UnableToLoad e), t\<lparr>buckets := (buckets t)[jump maphash t k := b\<lparr>arc := a1\<rparr>]\<rparr>)
    \<and> Unwrap (UnableToLoad e) = Some e
    \<and> eq (b\<lparr>arc := a1\<rparr>) = eq b \<and> items (b\<lparr>arc := a1\<rparr>) = items b
    \<and> eqPtrMap (b\<lparr>arc := a1\<rparr>) = eqPtrMap b
    \<and> (a1 = arc b \<longrightarrow> Get G maphash now t k i = Some (Inl (UnableToLoad e), t))"
proof -
  have las: "loadAndSet G now (b\<lparr>arc := a1\<rparr>) k i = Some (Inl (UnableToLoad e), b\<lparr>arc := a1\<rparr>)"
    using assms(4) by (simp add: loadAndSet_def)
  have bg: "bucket_Get G now b k i = Some (Inl (UnableToLoad e), b\<lparr>arc := a1\<rparr>)"
    using assms(3) las by (simp add: bucket_Get_def)
  have g: "Get G maphash now t k i
        = Some (Inl (UnableToLoad e), t\<lparr>buckets := (buckets t)[jump maphash t k := b\<lparr>arc := a1\<rparr>]\<rparr>)"
    using assms(1) assms(2) bg by (simp add: Get_def Let_def)
  have same: "a1 = arc b \<Longrightarrow> (buckets t)[jump maphash t k := b\<lparr>arc := a1\<rparr>] = buckets t"
    using assms(2) by simp
  show ?thesis
    using las bg g same by simp
qed

theorem Get_loader_failure_atomic_witness:
  "jump length_hash test_cache ''key3'' < length (buckets test_cache)
   \<and> test_bucket 0 = buckets test_cache ! jump length_hash test_cache ''key3''
   \<and> arcGet assoc_cache (arc (test_bucket 0)) ''key3'' = (Inl KeyNotFoundError, [])
   \<and> loader (test_bucket 0) ''key3'' () = ([], 0, Some ''unknown key'')
   \<and> Get assoc_cache length_hash 0 test_cache ''key3'' ()
       = Some (Inl (UnableToLoad ''unknown key''), test_cache)"
proof -
  have j: "jump length_hash test_cache ''key3'' = 0"
    by (simp add: jump_def length_hash_def test_cache_def)
  have h1: "jump length_hash test_cache ''key3'' < length (buckets test_cache)"
    unfolding j by (simp add: test_cache_def)
  have h2: "test_bucket 0 = buckets test_cache ! jump length_hash test_cache ''key3''"
    unfolding j by (simp add: test_cache_def)
  have a: "arc (test_bucket 0) = []"
    by (simp add: test_bucket_def new_bucket_def assoc_cache_def assoc_Build_def)
  have h3: "arcGet assoc_cache (arc (test_bucket 0)) ''key3'' = (Inl KeyNotFoundError, [])"
    by (simp add: a assoc_cache_def assoc_Get_def)
  have h4: "loader (test_bucket 0) ''key3'' () = ([], 0, Some ''unknown key'')"
    by (simp add: test_bucket_def new_bucket_def test_loader_def)
  have "[] = arc (test_bucket 0) \<longrightarrow>
        Get assoc_cache length_hash 0 test_cache ''key3'' ()
          = Some (Inl (UnableToLoad ''unknown key''), test_cache)"
    using Get_loader_failure_atomic [OF h1 h2 h3 h4, of 0] by blast
  with a have "Get assoc_cache length_hash 0 test_cache ''key3'' ()
       = Some (Inl (UnableToLoad ''unknown key''), test_cache)"
    by simp
  with h1 h2 h3 h4 show ?thesis by blast
qed

subsection \<open>utils/dvx/totp\<close>

lemma byte_less: "unat (w :: byte) < 256"
proof -
  have "unat w < 2 ^ LENGTH(8)"
    by (rule unsigned_less)
  then show ?thesis by simp
qed

lemma ucast_byte: "(ucast (drop_bit k (v :: 64 word)) :: byte) = of_nat (unat v div 2 ^ k mod 256)"
proof -
  have "unat (ucast (drop_bit k v) :: byte) = take_bit LENGTH(8) (drop_bit k (unat v))"
    by (simp only: unsigned_ucast_eq unat_drop_bit_eq)
  then have l: "unat (ucast (drop_bit k v) :: byte) = unat v div 2 ^ k mod 2 ^ 8"
    by (simp add: drop_bit_eq_div take_bit_eq_mod)
  have r: "unat (of_nat (unat v div 2 ^ k mod 256) :: byte) = unat v div 2 ^ k mod 2 ^ 8"
    by (simp add: unat_of_nat)
  show ?thesis
    using l r by (simp only: word_unat_eq_iff)
qed

lemma PutUint64_big_endian: "PutUint64 v = big_endian8 (unat v)"
proof -
  have u: "[0 ..< 8] = [0, 1, 2, 3, 4, 5, 6, 7::nat]"
    by (simp add: upt_rec)
  have z: "(ucast v :: byte) = ucast (drop_bit 0 v)" by simp
  show ?thesis
    unfolding PutUint64_def big_endian8_def u z ucast_byte by simp
qed

lemma and_0xF: "unat ((w :: byte) AND 0xF) = unat w mod 16"
proof -
  have "(0xF :: byte) = mask 4" by (simp add: mask_eq_exp_minus_1)
  then have "w AND 0xF = take_bit 4 w" by (simp only: take_bit_eq_mask)
  then have "unat (w AND 0xF) = take_bit 4 (unat w)" by (simp only: unsigned_take_bit_eq)
  then show ?thesis by (simp add: take_bit_eq_mod) 
qed

lemma and_0x7F: "unat ((w :: byte) AND 0x7F) = unat w mod 128"
proof -
  have "(0x7F :: byte) = mask 7" by (simp add: mask_eq_exp_minus_1)
  then have "w AND 0x7F = take_bit 7 w" by (simp only: take_bit_eq_mask)
  then have "unat (w AND 0x7F) = take_bit 7 (unat w)" by (simp only: unsigned_take_bit_eq)
  then show ?thesis by (simp add: take_bit_eq_mod) 
qed

lemma or_shift_nat:
  fixes x y :: nat
  assumes "x < 2 ^ k"
  shows "x OR push_bit k y = x + y * 2 ^ k"
proof -
  have "x AND push_bit k y = take_bit k x AND push_bit k y"
    using assms by (simp add: take_bit_nat_eq_self)
  also have "\<dots> = 0"
    by (rule bit_eqI) (auto simp: bit_simps)
  finally have "x + push_bit k y = x OR push_bit k y"
    by (rule disjunctive_add_eq_or)
  then show ?thesis
    by (simp add: push_bit_eq_mult)
qed

lemma unat_shifted_byte:
  assumes "k \<le> 24"
  shows "unat (push_bit k (ucast (a :: byte)) :: 32 word) = push_bit k (unat a)"
proof -
  have a: "unat a < 2 ^ 8"
    using byte_less [of a] by simp
  have "unat a * 2 ^ k < 2 ^ 8 * 2 ^ k"
    using a by simp
  also have "\<dots> = (2::nat) ^ (8 + k)"
    by (simp add: power_add)
  also have "\<dots> \<le> 2 ^ 32"
    using assms by (intro power_increasing) simp_all
  finally have b: "push_bit k (unat a) < 2 ^ 32"
    by (simp add: push_bit_eq_mult)
  have "unat a < 2 ^ 32"
    using a by simp
  then have "unat (ucast a :: 32 word) = unat a"
    by (simp add: unsigned_ucast_eq take_bit_nat_eq_self)
  then have "unat (push_bit k (ucast a) :: 32 word) = take_bit 32 (push_bit k (unat a))"
    by (simp add: unsigned_push_bit_eq)
  then show ?thesis
    using b by (simp only: take_bit_nat_eq_self)
qed

lemma Uint32_nat:
  fixes a b c d :: byte
  shows "unat (ucast d OR push_bit 8 (ucast c) OR push_bit 16 (ucast b) OR push_bit 24 (ucast a) :: 32 word) = unat a * 2 ^ 24 + unat b * 2 ^ 16 + unat c * 2 ^ 8 + unat d"
proof -
  have bd: "unat d < 2 ^ 8" "unat c < 2 ^ 8" "unat b < 2 ^ 8"
    using byte_less [of d] byte_less [of c] byte_less [of b] by simp_all
  have d0: "unat (ucast d :: 32 word) = unat d"
    using unat_shifted_byte [of 0 d] by simp
  have s1: "unat d OR push_bit 8 (unat c) = unat d + unat c * 2 ^ 8"
    using bd(1) by (rule or_shift_nat)
  have "unat d + unat c * 2 ^ 8 < 2 ^ 16"
    using bd by simp
  then have s2: "(unat d + unat c * 2 ^ 8) OR push_bit 16 (unat b) = unat d + unat c * 2 ^ 8 + unat b * 2 ^ 16"
    by (rule or_shift_nat)
  have "unat d + unat c * 2 ^ 8 + unat b * 2 ^ 16 < 2 ^ 24"
    using bd by simp
  then have s3: "(unat d + unat c * 2 ^ 8 + unat b * 2 ^ 16) OR push_bit 24 (unat a)
      = unat d + unat c * 2 ^ 8 + unat b * 2 ^ 16 + unat a * 2 ^ 24"
    by (rule or_shift_nat)
  have "unat (ucast d OR push_bit 8 (ucast c) OR push_bit 16 (ucast b) OR push_bit 24 (ucast a) :: 32 word)
      = ((unat d OR push_bit 8 (unat c)) OR push_bit 16 (unat b)) OR push_bit 24 (unat a)"
    by (simp only: unsigned_or_eq unat_shifted_byte d0 or.assoc)
  also have "\<dots> = unat d + unat c * 2 ^ 8 + unat b * 2 ^ 16 + unat a * 2 ^ 24"
    by (simp only: s1 s2 s3)
  finally show ?thesis
    by simp
qed

lemma utoa_length_le: "n < 10 ^ d \<Longrightarrow> 0 < d \<Longrightarrow> length (utoa n) \<le> d"
proof (induction n arbitrary: d rule: utoa.induct)
  case (1 n)
  show ?case
  proof (cases "n < 10")
    case True
    then show ?thesis using "1.prems" by (simp add: utoa.simps [of n])
  next
    case False
    then obtain d' where d: "d = Suc d'" "0 < d'"
      using "1.prems" by (cases d; cases "d - 1") auto
    have "n div 10 < 10 ^ d'"
      using "1.prems" d by (simp add: less_mult_imp_div_less mult.commute)
    then have "length (utoa (n div 10)) \<le> d'"
      using "1.IH" False d by simp
    then show ?thesis using False d by (simp add: utoa.simps [of n])
  qed
qed

lemma pad_loop_replicate:
  "length code \<le> d \<Longrightarrow> pad_loop (int d) code = Some (replicate (d - length code) CHR ''0'' @ code)"
proof (induction "d - length code" arbitrary: code)
  case 0
  then show ?case by (subst pad_loop.simps) simp
next
  case (Suc k)
  then have "length (CHR ''0'' # code) \<le> d" "k = d - length (CHR ''0'' # code)"
    by simp_all
  then have "pad_loop (int d) (CHR ''0'' # code)
      = Some (replicate (d - length (CHR ''0'' # code)) CHR ''0'' @ CHR ''0'' # code)"
    using Suc.hyps(1) by blast
  moreover have "replicate (d - length code) CHR ''0'' = replicate (d - length (CHR ''0'' # code)) CHR ''0'' @ [CHR ''0'']"
    using Suc.hyps(2) by (simp add: replicate_append_same Suc_diff_Suc flip: replicate_Suc)
  ultimately show ?case
    using Suc.hyps(2) by (subst pad_loop.simps) simp
qed

lemma decimal_padded_Suc:
  "decimal_padded (Suc d) n = decimal_padded d (n div 10) @ [digit_char (n mod 10)]"
proof -
  have "n div 10 ^ (d - i) = n div 10 div 10 ^ (d - 1 - i)" if "i < d" for i
  proof -
    have "(10::nat) ^ (d - i) = 10 * 10 ^ (d - 1 - i)"
      using that by (metis Suc_diff_Suc diff_Suc_eq_diff_pred diff_commute power_Suc)
    then show ?thesis
      by (simp add: div_mult2_eq)
  qed
  then have "map (\<lambda>i. digit_char (n div 10 ^ (d - i) mod 10)) [0 ..< d]
      = map (\<lambda>i. digit_char (n div 10 div 10 ^ (d - 1 - i) mod 10)) [0 ..< d]"
    by simp
  then show ?thesis
    by (simp add: decimal_padded_def)
qed

lemma digit_char_0: "digit_char 0 = CHR ''0''"
  unfolding digit_char_def by code_simp

lemma decimal_padded_zero: "decimal_padded d 0 = replicate d CHR ''0''"
  by (simp add: decimal_padded_def digit_char_0 map_replicate_const)

lemma decimal_padded_digit:
  "n < 10 \<Longrightarrow> decimal_padded (Suc d) n = replicate d CHR ''0'' @ [digit_char n]"
  by (simp add: decimal_padded_Suc decimal_padded_zero)

lemma utoa_padded:
  "n < 10 ^ d \<Longrightarrow> 0 < d \<Longrightarrow> replicate (d - length (utoa n)) CHR ''0'' @ utoa n = decimal_padded d n"
proof (induction n arbitrary: d rule: utoa.induct)
  case (1 n)
  show ?case
  proof (cases "n < 10")
    case True
    obtain d' where d: "d = Suc d'"
      using "1.prems" by (cases d) auto
    show ?thesis
      using True d by (simp add: utoa.simps [of n] decimal_padded_digit)
  next
    case False
    then obtain d' where d: "d = Suc d'" "0 < d'"
      using "1.prems" by (cases d; cases "d - 1") auto
    have lt: "n div 10 < 10 ^ d'"
      using "1.prems" d by (simp add: less_mult_imp_div_less mult.commute)
    then have "replicate (d' - length (utoa (n div 10))) CHR ''0'' @ utoa (n div 10)
        = decimal_padded d' (n div 10)"
      using "1.IH" False d by simp
    then show ?thesis
      using False d by (simp add: utoa.simps [of n] decimal_padded_Suc)
  qed
qed

lemma take4_drop:
  assumes "off + 4 \<le> length h"
  shows "take 4 (drop off h) = [h ! off, h ! (off + 1), h ! (off + 2), h ! (off + 3)]"
proof (rule nth_equalityI)
  show "length (take 4 (drop off h)) = length [h ! off, h ! (off + 1), h ! (off + 2), h ! (off + 3)]"
    using assms by simp
next
  fix i assume "i < length (take 4 (drop off h))"
  then have "i < 4" by simp
  then consider "i = 0" | "i = 1" | "i = 2" | "i = 3" by linarith
  then show "take 4 (drop off h) ! i = [h ! off, h ! (off + 1), h ! (off + 2), h ! (off + 3)] ! i"
    using assms by cases simp_all
qed

lemma truncate_word:
  assumes "20 \<le> length h"
  shows "h \<noteq> []"
    and "unat (last h AND 0xF) + 4 \<le> length h"
    and "\<exists>w. Uint32 ((take 4 (drop (unat (last h AND 0xF)) h))[0 := take 4 (drop (unat (last h AND 0xF)) h) ! 0 AND 0x7F]) = Some w
           \<and> unat w = dynamic_truncation h"
proof -
  show "h \<noteq> []" using assms by auto
  define off where "off = unat (last h AND 0xF)"
  have off: "off = unat (last h) mod 16"
    by (simp add: off_def and_0xF)
  then have "off < 16" by simp
  then show b: "unat (last h AND 0xF) + 4 \<le> length h"
    using assms by (simp add: off_def)
  have t: "take 4 (drop off h) = [h ! off, h ! (off + 1), h ! (off + 2), h ! (off + 3)]"
    using b by (intro take4_drop) (simp add: off_def)
  have "Uint32 [h ! off AND 0x7F, h ! (off + 1), h ! (off + 2), h ! (off + 3)]
      = Some (ucast (h ! (off + 3)) OR push_bit 8 (ucast (h ! (off + 2)))
              OR push_bit 16 (ucast (h ! (off + 1))) OR push_bit 24 (ucast (h ! off AND 0x7F)))"
    by (simp add: Uint32_def)
  moreover have "unat (ucast (h ! (off + 3)) OR push_bit 8 (ucast (h ! (off + 2)))
              OR push_bit 16 (ucast (h ! (off + 1))) OR push_bit 24 (ucast (h ! off AND 0x7F)) :: 32 word)
      = dynamic_truncation h"
    unfolding Uint32_nat and_0x7F dynamic_truncation_def Let_def off [symmetric] by simp
  ultimately show "\<exists>w. Uint32 ((take 4 (drop (unat (last h AND 0xF)) h))[0 := take 4 (drop (unat (last h AND 0xF)) h) ! 0 AND 0x7F]) = Some w
           \<and> unat w = dynamic_truncation h"
    unfolding off_def [symmetric] t by simp
qed

lemma Size_ge: "20 \<le> Size hsh"
  by (cases hsh) simp_all

lemma code_of_word:
  assumes "d = 6 \<or> d = 8"
  shows "pad_loop (int d) (Itoa (uint ((w :: 32 word) mod word_of_int (Pow10 (int d)))))
           = Some (decimal_padded d (unat w mod 10 ^ d))"
proof -
  have p: "unat (word_of_int (Pow10 (int d)) :: 32 word) = 10 ^ d"
    using assms by (auto simp: Pow10_def)
  have u: "unat (w mod word_of_int (Pow10 (int d))) = unat w mod 10 ^ d"
    by (simp add: unat_mod_distrib p)
  define n where "n = unat w mod 10 ^ d"
  have n: "n < 10 ^ d" by (simp add: n_def)
  have d: "0 < d" using assms by auto
  have "Itoa (uint (w mod word_of_int (Pow10 (int d)))) = utoa n"
    by (simp add: Itoa_def uint_nat u n_def)
  moreover have "pad_loop (int d) (utoa n) = Some (replicate (d - length (utoa n)) CHR ''0'' @ utoa n)"
    using n d by (intro pad_loop_replicate utoa_length_le)
  ultimately show ?thesis
    using utoa_padded [OF n d] by (simp add: n_def)
qed

lemma generateOTP_reference:
  assumes sized: "length (hmac hsh secret (PutUint64 counter)) = Size hsh"
    and alg: "select_hash algorithm = Some hsh"
    and dg: "digits = 6 \<or> digits = 8"
  shows "generateOTP hmac secret algorithm digits counter
           = Some (Inr (rfc4226_code hmac hsh secret (nat digits) counter))"
proof -
  define h where "h = hmac hsh secret (PutUint64 counter)"
  have len: "20 \<le> length h"
    using sized Size_ge [of hsh] by (simp add: h_def)
  obtain w where w: "Uint32 ((take 4 (drop (unat (last h AND 0xF)) h))[0 := take 4 (drop (unat (last h AND 0xF)) h) ! 0 AND 0x7F]) = Some w"
      "unat w = dynamic_truncation h"
    using truncate_word(3) [OF len] by blast
  have d: "nat digits = 6 \<or> nat digits = 8" "int (nat digits) = digits"
    using dg by auto
  have c: "pad_loop digits (Itoa (uint (w mod word_of_int (Pow10 digits))))
      = Some (decimal_padded (nat digits) (unat w mod 10 ^ nat digits))"
    using code_of_word [OF d(1), of w] d(2) by simp
  have "generateOTP hmac secret algorithm digits counter
      = map_option Inr (pad_loop digits (Itoa (uint (w mod word_of_int (Pow10 digits)))))"
    using alg dg truncate_word(1,2) [OF len] w(1)
    unfolding h_def by (auto simp add: generateOTP_def Let_def simp del: select_hash.simps)
  then show ?thesis
    by (simp add: c w(2) rfc4226_code_def h_def PutUint64_big_endian)
qed

lemma generateOTP_total:
  assumes sized: "length (hmac hsh secret (PutUint64 counter)) = Size hsh"
    and alg: "select_hash algorithm = Some hsh"
  shows "\<exists>r. generateOTP hmac secret algorithm digits counter = Some r"
proof (cases "digits = 6 \<or> digits = 8")
  case True
  have "generateOTP hmac secret algorithm digits counter
      = Some (Inr (rfc4226_code hmac hsh secret (nat digits) counter))"
    using sized alg True by (rule generateOTP_reference)
  then show ?thesis by simp
next
  case False
  define h where "h = hmac hsh secret (PutUint64 counter)"
  have len: "20 \<le> length h"
    using sized Size_ge [of hsh] by (simp add: h_def)
  obtain w where w: "Uint32 ((take 4 (drop (unat (last h AND 0xF)) h))[0 := take 4 (drop (unat (last h AND 0xF)) h) ! 0 AND 0x7F]) = Some w"
    using truncate_word(3) [OF len] by blast
  have "generateOTP hmac secret algorithm digits counter = Some (Inl InvalidDigits)"
    using alg False truncate_word(1,2) [OF len] w
    unfolding h_def by (auto simp add: generateOTP_def Let_def simp del: select_hash.simps)
  then show ?thesis by simp
qed

lemma generateOTP_invalid_digits:
  assumes "digits \<noteq> 6" "digits \<noteq> 8" "generateOTP hmac secret algorithm digits counter = Some r"
  shows "isl r"
  using assms
  by (auto simp add: generateOTP_def Let_def simp del: select_hash.simps split: option.splits if_splits)

lemma digit_chars:
  "digit_char 0 = CHR ''0''" "digit_char 1 = CHR ''1''" "digit_char 2 = CHR ''2''"
  "digit_char 3 = CHR ''3''" "digit_char 4 = CHR ''4''" "digit_char 5 = CHR ''5''"
  "digit_char 6 = CHR ''6''" "digit_char 7 = CHR ''7''" "digit_char 8 = CHR ''8''"
  "digit_char 9 = CHR ''9''"
  unfolding digit_char_def by code_simp+

lemma be1: "big_endian8 (unat (1 :: 64 word)) = [0, 0, 0, 0, 0, 0, 0, 1]"
  by (simp add: big_endian8_def upt_rec)

lemma dt: "dynamic_truncation [0x75, 0xa4, 0x8a, 0x19, 0xd4, 0xcb, 0xe1, 0x00, 0x64, 0x4e,
            0x8a, 0xc1, 0x39, 0x7e, 0xea, 0x74, 0x7a, 0x2d, 0x33, 0xab] = 1094287082"
  by (simp add: dynamic_truncation_def)

lemma dp: "decimal_padded 6 (1094287082 mod 10 ^ 6) = ''287082''"
  by (simp add: decimal_padded_def upt_rec digit_chars)

lemma rfc_code: "rfc4226_code rfc4226_hmac sha1 rfc4226_secret 6 1 = ''287082''"
proof -
  have h: "rfc4226_hmac sha1 rfc4226_secret (big_endian8 (unat (1 :: 64 word)))
      = [0x75, 0xa4, 0x8a, 0x19, 0xd4, 0xcb, 0xe1, 0x00, 0x64, 0x4e,
         0x8a, 0xc1, 0x39, 0x7e, 0xea, 0x74, 0x7a, 0x2d, 0x33, 0xab]"
    unfolding be1 by (simp add: rfc4226_hmac_def)
  show ?thesis
    unfolding rfc4226_code_def h dt by (rule dp)
qed

lemma quot59: "quot 59 30 = 1" by (simp add: quot_def)

lemma Generate_test_vector: "Generate rfc4226_hmac 59 rfc4226_totp = Some (Inr ''287082'')"
proof -
  have s: "\<forall>m. length (rfc4226_hmac sha1 rfc4226_secret m) = Size sha1"
    by (simp add: rfc4226_hmac_def)
  have "generateOTP rfc4226_hmac rfc4226_secret ''SHA1'' 6 1
      = Some (Inr (rfc4226_code rfc4226_hmac sha1 rfc4226_secret (nat 6) 1))"
    by (rule generateOTP_reference) (simp_all add: rfc4226_hmac_def)
  then have "generateOTP rfc4226_hmac rfc4226_secret ''SHA1'' 6 1 = Some (Inr ''287082'')"
    by (simp add: rfc_code)
  moreover have "rfc4226_secret \<noteq> []"
    by (simp add: rfc4226_secret_def bytes_of_def)
  ultimately show ?thesis
    by (simp add: Generate_def rfc4226_totp_def quot59)
qed



text \<open>
  C7. For an algorithm name among SHA1, SHA256 and SHA512 (selecting the hash \<open>hsh\<close>),
  for 6 or 8 digits, for every secret and every counter, \<^verbatim>\<open>generateOTP\<close> returns the
  code of the RFC 4226 reference computation \<open>rfc4226_code\<close>: HMAC of the eight
  big-endian counter bytes, offset from the low four bits of the last byte, the 31-bit
  big-endian value at the offset, reduced modulo \<open>10 ^ digits\<close> and written with
  exactly \<open>digits\<close> decimal digits. The only assumption on the HMAC of the library is
  the size of its digest.
\<close>

theorem generateOTP_rfc4226:
  assumes "algorithm = ''SHA1'' \<and> hsh = sha1 \<or> algorithm = ''SHA256'' \<and> hsh = sha256
           \<or> algorithm = ''SHA512'' \<and> hsh = sha512"
    and "digits = 6 \<or> digits = 8"
    and "\<forall>m. length (hmac hsh secret m) = Size hsh"
  shows "generateOTP hmac secret algorithm digits counter
           = Some (Inr (rfc4226_code hmac hsh secret (nat digits) counter))"
proof -
  have "select_hash algorithm = Some hsh"
    using assms(1) by auto
  moreover have "length (hmac hsh secret (PutUint64 counter)) = Size hsh"
    using assms(3) by simp
  ultimately show ?thesis
    using assms(2) by (intro generateOTP_reference)
qed

theorem generateOTP_rfc4226_witness:
  "(\<forall>m. length (rfc4226_hmac sha1 rfc4226_secret m) = Size sha1)
   \<and> generateOTP rfc4226_hmac rfc4226_secret ''SHA1'' 6 1 = Some (Inr ''287082'')"
proof -
  have s: "\<forall>m. length (rfc4226_hmac sha1 rfc4226_secret m) = Size sha1"
    by (simp add: rfc4226_hmac_def)
  have "generateOTP rfc4226_hmac rfc4226_secret ''SHA1'' 6 1
      = Some (Inr (rfc4226_code rfc4226_hmac sha1 rfc4226_secret (nat 6) 1))"
    using s by (intro generateOTP_rfc4226) simp_all
  then have "generateOTP rfc4226_hmac rfc4226_secret ''SHA1'' 6 1 = Some (Inr ''287082'')"
    by (simp add: rfc_code)
  with s show ?thesis by blast
qed

text \<open>
  C10. \<^verbatim>\<open>Verify\<close> always returns, and the error it returns is always nil. Whenever
  \<^verbatim>\<open>Generate\<close> fails, and in particular for an empty secret, a period other than 30 or
  digits other than 6 and 8, \<^verbatim>\<open>Verify\<close> returns \<open>(false, nil)\<close>, the same pair as for a
  wrong code.
\<close>

theorem Verify_never_returns_error:
  assumes "\<forall>hsh k m. length (hmac hsh k m) = Size hsh"
  shows "(\<exists>valid. Verify hmac now t code = Some (valid, None))
    \<and> (\<forall>e. Generate hmac now t = Some (Inl e) \<longrightarrow> Verify hmac now t code = Some (False, None))
    \<and> (Secret t = [] \<or> Period t \<noteq> 30 \<or> (Digits t \<noteq> 6 \<and> Digits t \<noteq> 8)
         \<longrightarrow> Verify hmac now t code = Some (False, None))"
proof -
  have tot: "\<exists>r. Generate hmac now t = Some r"
  proof (cases "select_hash (Algorithm t)")
    case None
    then show ?thesis
      by (simp add: Generate_def generateOTP_def Let_def del: select_hash.simps)
  next
    case (Some hsh)
    show ?thesis
      using generateOTP_total [OF _ Some, of hmac] assms
      by (simp add: Generate_def Let_def)
  qed
  then obtain r where r: "Generate hmac now t = Some r" by blast
  have 1: "\<exists>valid. Verify hmac now t code = Some (valid, None)"
    using r by (cases r) (auto simp add: Verify_def)
  have 2: "\<forall>e. Generate hmac now t = Some (Inl e) \<longrightarrow> Verify hmac now t code = Some (False, None)"
    by (simp add: Verify_def)
  have "isl r" if "Secret t = [] \<or> Period t \<noteq> 30 \<or> (Digits t \<noteq> 6 \<and> Digits t \<noteq> 8)"
    using that r generateOTP_invalid_digits [of "Digits t" hmac "Secret t" "Algorithm t" _ r]
    by (auto simp: Generate_def Let_def split: if_splits)
  then have 3: "Secret t = [] \<or> Period t \<noteq> 30 \<or> (Digits t \<noteq> 6 \<and> Digits t \<noteq> 8)
         \<longrightarrow> Verify hmac now t code = Some (False, None)"
    using 2 r by (cases r) auto
  show ?thesis using 1 2 3 by blast
qed

theorem Verify_never_returns_error_witness:
  "(\<forall>hsh k m. length (rfc4226_hmac hsh k m) = Size hsh)
   \<and> Verify rfc4226_hmac 59 misconfigured_totp ''287082'' = Some (False, None)
   \<and> Verify rfc4226_hmac 59 rfc4226_totp ''287082'' = Some (True, None)
   \<and> Verify rfc4226_hmac 59 rfc4226_totp ''287083'' = Some (False, None)"
proof -
  have s: "\<forall>hsh k m. length (rfc4226_hmac hsh k m) = Size hsh"
    by (simp add: rfc4226_hmac_def)
  have d: "Digits misconfigured_totp \<noteq> 6 \<and> Digits misconfigured_totp \<noteq> 8"
    by (simp add: misconfigured_totp_def)
  have a: "Verify rfc4226_hmac 59 misconfigured_totp ''287082'' = Some (False, None)"
    using Verify_never_returns_error [OF s, of 59 misconfigured_totp "''287082''"] d by blast
  have b: "Verify rfc4226_hmac 59 rfc4226_totp ''287082'' = Some (True, None)"
    by (simp add: Verify_def Generate_test_vector ConstantTimeCompare_def)
  have c: "Verify rfc4226_hmac 59 rfc4226_totp ''287083'' = Some (False, None)"
    by (simp add: Verify_def Generate_test_vector ConstantTimeCompare_def bytes_of_def)
  show ?thesis using s a b c by blast
qed

subsection \<open>encoding/base64\<close>

lemma div_4096: "(n::nat) div 4096 = n div 64 div 64"
  by (simp add: div_mult2_eq [symmetric])

lemma div_262144: "(n::nat) div 262144 = n div 64 div 64 div 64"
  by (simp add: div_mult2_eq [symmetric])

lemma recombine:
  fixes val :: nat
  assumes "val < 16777216"
  shows "(val div 262144 mod 64) * 262144 + (val div 4096 mod 64) * 4096
         + (val div 64 mod 64) * 64 + val mod 64 = val"
proof -
  define a where "a = val div 64"
  define b where "b = a div 64"
  define c where "c = b div 64"
  have v: "val = a * 64 + val mod 64" by (simp add: a_def)
  have a: "a = b * 64 + a mod 64" by (simp add: b_def)
  have b: "b = c * 64 + b mod 64" by (simp add: c_def)
  have "c < 64" using assms unfolding c_def b_def a_def by simp
  then have c: "c mod 64 = c" by simp
  have "(c mod 64) * 262144 + (b mod 64) * 4096 + (a mod 64) * 64 + val mod 64 = val"
    using v a b c by linarith
  then show ?thesis
    by (simp add: div_4096 div_262144 a_def b_def c_def)
qed

lemma index_of_None: "index_of c xs = None \<longleftrightarrow> c \<notin> set xs"
  by (induction xs) auto

lemma index_of_nth: "distinct xs \<Longrightarrow> i < length xs \<Longrightarrow> index_of (xs ! i) xs = Some i"
proof (induction xs arbitrary: i)
  case Nil
  then show ?case by simp
next
  case (Cons x xs)
  then show ?case by (cases i) auto
qed

lemma byte_of_sum: "(of_nat (a * 256 + unat b) :: byte) = b"
proof -
  have "(of_nat (a * 256 + unat b) :: byte) = of_nat (unat b)"
    by (simp only: word_of_nat_eq_iff take_bit_eq_mod) simp
  then show ?thesis by simp
qed

lemma quantum_three:
  fixes b0 b1 b2 :: byte
  defines "val \<equiv> unat b0 * 65536 + unat b1 * 256 + unat b2"
  shows "quantum (val div 262144 mod 64) (val div 4096 mod 64) (val div 64 mod 64) (val mod 64)
         = [b0, b1, b2]"
proof -
  have lt: "val < 16777216"
    using byte_less [of b0] byte_less [of b1] byte_less [of b2] by (simp add: val_def)
  have d1: "val div 65536 = unat b0"
    using byte_less [of b1] byte_less [of b2] by (simp add: val_def)
  have d2: "val div 256 = unat b0 * 256 + unat b1"
    using byte_less [of b2] by (simp add: val_def)
  have d3: "val = (unat b0 * 256 + unat b1) * 256 + unat b2"
    by (simp add: val_def)
  have e1: "(of_nat (val div 65536) :: byte) = b0"
    by (simp add: d1)
  have e2: "(of_nat (val div 256) :: byte) = b1"
    by (simp only: d2 byte_of_sum)
  have e3: "(of_nat val :: byte) = b2"
    by (subst d3) (simp only: byte_of_sum)
  have "[of_nat (val div 65536), of_nat (val div 256), of_nat val] = [b0, b1, b2]"
    by (simp only: e1 e2 e3)
  then show ?thesis
    unfolding quantum_def Let_def recombine [OF lt] .
qed

lemma quantum_two:
  fixes b0 b1 :: byte
  defines "val \<equiv> unat b0 * 65536 + unat b1 * 256"
  shows "take 2 (quantum (val div 262144 mod 64) (val div 4096 mod 64) (val div 64 mod 64) 0)
         = [b0, b1]"
proof -
  have "val = unat b0 * 65536 + unat b1 * 256 + unat (0 :: byte)"
    by (simp add: val_def)
  moreover have "val mod 64 = 0"
    by (simp add: val_def)
  ultimately show ?thesis
    using quantum_three [of b0 b1 0] by simp
qed

lemma quantum_one:
  fixes b0 :: byte
  defines "val \<equiv> unat b0 * 65536"
  shows "take 1 (quantum (val div 262144 mod 64) (val div 4096 mod 64) 0 0) = [b0]"
proof -
  have "val = unat b0 * 65536 + unat (0 :: byte) * 256 + unat (0 :: byte)"
    by (simp add: val_def)
  moreover have "val mod 64 = 0" "val div 64 mod 64 = 0"
    by (simp_all add: val_def)
  ultimately show ?thesis
    using quantum_three [of b0 0 0] by simp
qed

lemma decode_encode:
  assumes "distinct enc" and "length enc = 64"
  shows "decode_loop enc [] (EncodeToString enc src) = Some src"
  using assms
proof (induction enc src rule: EncodeToString.induct)
  case (1 enc b0 b1 b2 src)
  define val where "val = unat b0 * 65536 + unat b1 * 256 + unat b2"
  have ix: "index_of (enc ! (n mod 64)) enc = Some (n mod 64)" for n
    using "1.prems" by (intro index_of_nth) simp_all
  have "decode_loop enc [] (EncodeToString enc (b0 # b1 # b2 # src))
      = map_option (\<lambda>dst. quantum (val div 262144 mod 64) (val div 4096 mod 64)
                                   (val div 64 mod 64) (val mod 64) @ dst)
          (decode_loop enc [] (EncodeToString enc src))"
    by (simp add: Let_def ix val_def)
  also have "\<dots> = Some ([b0, b1, b2] @ src)"
    using "1.IH" "1.prems" unfolding val_def quantum_three by simp
  finally show ?case by simp
next
  case (2 enc b0 b1)
  define val where "val = unat b0 * 65536 + unat b1 * 256"
  have ix: "index_of (enc ! (n mod 64)) enc = Some (n mod 64)" for n
    using "2.prems" by (intro index_of_nth) simp_all
  have "decode_loop enc [] (EncodeToString enc [b0, b1])
      = Some (take 2 (quantum (val div 262144 mod 64) (val div 4096 mod 64) (val div 64 mod 64) 0))"
    by (simp add: Let_def ix val_def)
  then show ?case
    unfolding val_def quantum_two .
next
  case (3 enc b0)
  define val where "val = unat b0 * 65536"
  have ix: "index_of (enc ! (n mod 64)) enc = Some (n mod 64)" for n
    using "3.prems" by (intro index_of_nth) simp_all
  have "decode_loop enc [] (EncodeToString enc [b0])
      = Some (take 1 (quantum (val div 262144 mod 64) (val div 4096 mod 64) 0 0))"
    by (simp add: Let_def ix val_def)
  then show ?case
    unfolding val_def quantum_one .
next
  case (4 enc)
  then show ?case by simp
qed

lemma distinct_encodeStd: "distinct encodeStd" "length encodeStd = 64"
  by (simp_all add: encodeStd_def)

lemma distinct_encodeURL: "distinct encodeURL" "length encodeURL = 64"
  by (simp_all add: encodeURL_def)

lemma decode_loop_end:
  "length dbuf \<le> 3 \<Longrightarrow> decode_loop enc dbuf [] \<noteq> None \<longleftrightarrow> length dbuf mod 4 \<noteq> 1"
  by (cases dbuf; cases "tl dbuf"; cases "tl (tl dbuf)"; cases "tl (tl (tl dbuf))") auto

lemma decode_loop_accepts:
  assumes "CHR 0x0A \<notin> set enc" and "CHR 0x0D \<notin> set enc" and "length dbuf \<le> 3"
  shows "decode_loop enc dbuf s \<noteq> None \<longleftrightarrow>
           list_all (\<lambda>c. c \<in> set enc) (filter (\<lambda>c. \<not> skipped c) s)
           \<and> (length dbuf + length (filter (\<lambda>c. \<not> skipped c) s)) mod 4 \<noteq> 1"
  using assms(3)
proof (induction s arbitrary: dbuf)
  case Nil
  then show ?case
    using decode_loop_end [of dbuf enc] by simp
next
  case (Cons x s)
  show ?case
  proof (cases "index_of x enc")
    case None
    then have nin: "x \<notin> set enc"
      by (simp add: index_of_None)
    show ?thesis
    proof (cases "skipped x")
      case True
      have "decode_loop enc dbuf (x # s) = decode_loop enc dbuf s"
        using None True by (simp add: skipped_def)
      then show ?thesis
        using True Cons.IH [OF Cons.prems] by simp
    next
      case False
      have "decode_loop enc dbuf (x # s) = None"
        using None False by (simp add: skipped_def)
      then show ?thesis
        using False nin by simp
    qed
  next
    case (Some v)
    then have xin: "x \<in> set enc"
      using index_of_None [of x enc] by auto
    then have ns: "\<not> skipped x"
      using assms(1,2) by (auto simp: skipped_def)
    show ?thesis
    proof (cases "length dbuf = 3")
      case True
      then obtain a b c where d: "dbuf = [a, b, c]"
        by (cases dbuf; cases "tl dbuf"; cases "tl (tl dbuf)") auto
      have "(3 + Suc n) mod 4 \<noteq> 1 \<longleftrightarrow> n mod 4 \<noteq> 1" for n :: nat
        by presburger
      then show ?thesis
        using Some xin ns Cons.IH [of "[]"] d by simp
    next
      case False
      then have l: "length (dbuf @ [v]) \<le> 3"
        using Cons.prems by simp
      have "decode_loop enc dbuf (x # s) = decode_loop enc (dbuf @ [v]) s"
        using Some False by (auto split: list.splits)
      then show ?thesis
        using xin ns Cons.IH [OF l] by simp
    qed
  qed
qed

lemma DecodeString_accepts:
  assumes "CHR 0x0A \<notin> set enc" and "CHR 0x0D \<notin> set enc"
  shows "DecodeString enc s \<noteq> None \<longleftrightarrow> raw_valid enc s"
  using decode_loop_accepts [OF assms, of "[]" s] by (simp add: DecodeString_def raw_valid_def Let_def)

subsection \<open>The envelope codec and key rings\<close>

lemma index_of_append:
  "c \<notin> set pre \<Longrightarrow> index_of c (pre @ c # suf) = Some (length pre)"
  by (induction pre) auto

lemma segments_nonempty: "segments s \<noteq> []"
  by (induction s) (auto split: list.splits)

lemma segments_no_dot: "CHR ''.'' \<notin> set s \<Longrightarrow> segments s = [s]"
  by (induction s) auto

lemma segments_dot:
  "CHR ''.'' \<notin> set pre \<Longrightarrow> segments (pre @ CHR ''.'' # suf) = pre # segments suf"
  by (induction pre) auto

lemma segments_two: "CHR ''.'' \<in> set s \<Longrightarrow> 2 \<le> length (segments s)"
proof -
  assume "CHR ''.'' \<in> set s"
  then obtain pre suf where "s = pre @ CHR ''.'' # suf" "CHR ''.'' \<notin> set pre"
    by (meson split_list_first)
  then show ?thesis
    using segments_nonempty [of suf] by (cases "segments suf") (simp_all add: segments_dot)
qed

lemma segments_single: "segments s = [d] \<Longrightarrow> s = d \<and> CHR ''.'' \<notin> set s"
proof -
  assume a: "segments s = [d]"
  then have "CHR ''.'' \<notin> set s"
    using segments_two [of s] by auto
  then show ?thesis
    using a by (simp add: segments_no_dot)
qed

lemma index_of_no_dot: "c \<notin> set s \<Longrightarrow> index_of c s = None"
  by (simp add: index_of_None)

lemma SplitN_cases:
  obtains (one) "CHR ''.'' \<notin> set s" "SplitN s CHR ''.'' 3 = [s]" "segments s = [s]"
  | (two) a t where "s = a @ CHR ''.'' # t" "CHR ''.'' \<notin> set a" "CHR ''.'' \<notin> set t"
      "SplitN s CHR ''.'' 3 = [a, t]" "segments s = [a, t]"
  | (three) a b r where "s = a @ CHR ''.'' # b @ CHR ''.'' # r" "CHR ''.'' \<notin> set a"
      "CHR ''.'' \<notin> set b" "SplitN s CHR ''.'' 3 = [a, b, r]" "segments s = a # b # segments r"
proof (cases "CHR ''.'' \<in> set s")
  case False
  then have "SplitN s CHR ''.'' 3 = [s]" "segments s = [s]"
    by (simp_all add: numeral_3_eq_3 index_of_no_dot segments_no_dot)
  with False show ?thesis by (rule one)
next
  case True
  then obtain a t where s: "s = a @ CHR ''.'' # t" and a: "CHR ''.'' \<notin> set a"
    by (meson split_list_first)
  have sp: "SplitN s CHR ''.'' 3 = a # SplitN t CHR ''.'' 2"
    using a by (simp add: s numeral_3_eq_3 numeral_2_eq_2 index_of_append)
  show ?thesis
  proof (cases "CHR ''.'' \<in> set t")
    case False
    then have "SplitN t CHR ''.'' 2 = [t]"
      by (simp add: numeral_2_eq_2 index_of_no_dot)
    then have "SplitN s CHR ''.'' 3 = [a, t]"
      by (simp only: sp)
    moreover have "segments s = [a, t]"
      using a False by (simp add: s segments_no_dot segments_dot)
    ultimately show ?thesis
      using s a False by (intro two)
  next
    case True
    then obtain b r where t: "t = b @ CHR ''.'' # r" and b: "CHR ''.'' \<notin> set b"
      by (meson split_list_first)
    have "SplitN t CHR ''.'' 2 = [b, r]"
      using b by (simp add: t numeral_2_eq_2 index_of_append)
    then have "SplitN s CHR ''.'' 3 = [a, b, r]"
      by (simp only: sp)
    moreover have "segments s = a # b # segments r"
      using a b by (simp add: s t segments_dot)
    ultimately show ?thesis
      using s [unfolded t] a b by (intro three)
  qed
qed

lemma dot_not_base64: "CHR ''.'' \<notin> set encodeURL" "\<not> skipped CHR ''.''"
  by (simp_all add: encodeURL_def skipped_def)

lemma newline_not_base64:
  "CHR 0x0A \<notin> set encodeURL" "CHR 0x0D \<notin> set encodeURL"
  "CHR 0x0A \<notin> set encodeStd" "CHR 0x0D \<notin> set encodeStd"
  by (simp_all add: encodeURL_def encodeStd_def)

lemma raw_valid_no_dot: "raw_valid encodeURL r \<Longrightarrow> CHR ''.'' \<notin> set r"
proof
  assume v: "raw_valid encodeURL r" and d: "CHR ''.'' \<in> set r"
  from d have "CHR ''.'' \<in> set (filter (\<lambda>c. \<not> skipped c) r)"
    using dot_not_base64(2) by simp
  then have "CHR ''.'' \<in> set encodeURL"
    using v by (auto simp: raw_valid_def Let_def list_all_iff)
  then show False
    using dot_not_base64(1) by simp
qed

lemma DecodeString_URL: "DecodeString encodeURL d \<noteq> None \<longleftrightarrow> raw_valid encodeURL d"
  by (rule DecodeString_accepts) (rule newline_not_base64)+

lemma Decode_accepts_iff:
  "\<not> isl (Decode s) \<longleftrightarrow>
     (\<exists>t d. segments s = [''dv1'', t, d] \<and> t \<in> {Encrypted, Signed, Tagged, TOTP_prefix}
            \<and> raw_valid encodeURL d)"
proof (cases s rule: SplitN_cases)
  case one
  then show ?thesis by (simp add: Decode_def)
next
  case (two a t)
  then show ?thesis by (simp add: Decode_def)
next
  case (three a b r)
  show ?thesis
  proof (cases "raw_valid encodeURL r")
    case True
    then have "segments r = [r]"
      using raw_valid_no_dot segments_no_dot by blast
    moreover obtain data where "DecodeString encodeURL r = Some data"
      using True DecodeString_URL [of r] by auto
    ultimately show ?thesis
      using three True by (auto simp: Decode_def Let_def)
  next
    case False
    then have n: "DecodeString encodeURL r = None"
      using DecodeString_URL [of r] by auto
    have "\<not> raw_valid encodeURL d" if "segments r = [d]" for d
      using that False segments_single [of r d] by simp
    then show ?thesis
      using three n by (auto simp: Decode_def Let_def)
  qed
qed

lemma SplitN_three:
  assumes "CHR ''.'' \<notin> set a" and "CHR ''.'' \<notin> set b"
  shows "SplitN (a @ CHR ''.'' # b @ CHR ''.'' # r) CHR ''.'' 3 = [a, b, r]"
  using assms by (simp add: numeral_3_eq_3 index_of_append)

lemma Decode_of_Encode:
  assumes "t \<in> {Encrypted, Signed, Tagged, TOTP_prefix}"
  shows "Decode (Encode t x) = Inr (''dv1'', t, x)"
proof -
  have t: "CHR ''.'' \<notin> set t"
    using assms by (auto simp: Encrypted_def Signed_def Tagged_def TOTP_prefix_def)
  have "Encode t x = ''dv1'' @ CHR ''.'' # t @ CHR ''.'' # EncodeToString encodeURL x"
    by (simp add: Encode_def Version_def)
  moreover have "SplitN (''dv1'' @ CHR ''.'' # t @ CHR ''.'' # EncodeToString encodeURL x) CHR ''.'' 3
      = [''dv1'', t, EncodeToString encodeURL x]"
    using t by (intro SplitN_three) simp_all
  ultimately have "SplitN (Encode t x) CHR ''.'' 3 = [''dv1'', t, EncodeToString encodeURL x]"
    by (simp only:)
  moreover have "DecodeString encodeURL (EncodeToString encodeURL x) = Some x"
    unfolding DecodeString_def by (rule decode_encode) (rule distinct_encodeURL)+
  ultimately show ?thesis
    using assms by (auto simp: Decode_def)
qed

text \<open>
  C5. For each of the four type prefixes and every byte string \<open>x\<close>, decoding the
  encoded envelope succeeds with version \<open>dv1\<close>, the same prefix and the data \<open>x\<close>.
\<close>

theorem Decode_Encode:
  assumes "t \<in> {Encrypted, Signed, Tagged, TOTP_prefix}"
  shows "Decode (Encode t x) = Inr (''dv1'', t, x)"
  using assms by (rule Decode_of_Encode)

theorem Decode_Encode_witness:
  "TOTP_prefix \<in> {Encrypted, Signed, Tagged, TOTP_prefix}
   \<and> Decode (Encode TOTP_prefix [1, 2, 3, 4]) = Inr (''dv1'', ''totp'', [1, 2, 3, 4])
   \<and> Encode TOTP_prefix [1, 2, 3, 4] = ''dv1.totp.AQIDBA''"
proof -
  have m: "TOTP_prefix \<in> {Encrypted, Signed, Tagged, TOTP_prefix}"
    by simp
  have e: "Encode TOTP_prefix [1, 2, 3, 4] = ''dv1.totp.AQIDBA''"
    by (simp add: Encode_def Version_def TOTP_prefix_def encodeURL_def)
  show ?thesis
    using m e Decode_Encode [OF m, of "[1, 2, 3, 4]"] by (simp add: TOTP_prefix_def)
qed

lemma index_URL:
  "index_of CHR ''A'' encodeURL = Some 0"
  "index_of CHR ''!'' encodeURL = None"
  "index_of (CHR 0x0A) encodeURL = None"
  by (simp_all add: encodeURL_def)

lemma index_Std:
  "index_of CHR ''d'' encodeStd = Some 29"
  "index_of CHR ''G'' encodeStd = Some 6"
  "index_of CHR ''9'' encodeStd = Some 61"
  "index_of CHR ''0'' encodeStd = Some 52"
  "index_of CHR ''c'' encodeStd = Some 28"
  "index_of CHR ''A'' encodeStd = Some 0"
  by (simp_all add: encodeStd_def)

lemma Decode_dv2: "Decode ''dv2.enc.AAAA'' = Inl (UnknownVersion ''dv2'')"
  by (simp add: Decode_def numeral_3_eq_3)

lemma Decode_xxx: "Decode ''dv1.xxx.AAAA'' = Inl (UnknownTypePrefix ''xxx'')"
  by (simp add: Decode_def numeral_3_eq_3 Encrypted_def Signed_def Tagged_def TOTP_prefix_def)

lemma Decode_two_parts: "Decode ''dv1.enc'' = Inl Expected3Parts"
  by (simp add: Decode_def numeral_3_eq_3)

lemma Decode_bangs: "Decode ''dv1.enc.!!!'' = Inl DataNotRawBase64URL"
  by (simp add: Decode_def numeral_3_eq_3 Encrypted_def DecodeString_def index_URL)

lemma decode_loop_newline:
  "decode_loop encodeURL [] (''AA'' @ CHR 0x0A # ''AA'') = Some (quantum 0 0 0 0)"
  by (simp add: index_URL)

text \<open>
  C6, as the claim states it, fails: the data segment \<open>AA\nAA\<close> contains a newline,
  which is no character of the URL-safe alphabet, yet \<^verbatim>\<open>Decode\<close> accepts the envelope
  and returns three zero bytes.
\<close>

theorem Decode_newline_counterexample:
  "segments (''dv1.enc.AA'' @ CHR 0x0A # ''AA'') = [''dv1'', ''enc'', ''AA'' @ CHR 0x0A # ''AA'']
   \<and> CHR 0x0A \<in> set (''AA'' @ CHR 0x0A # ''AA'') \<and> CHR 0x0A \<notin> set encodeURL
   \<and> Decode (''dv1.enc.AA'' @ CHR 0x0A # ''AA'') = Inr (''dv1'', Encrypted, [0, 0, 0])"
proof -
  have "SplitN (''dv1.enc.AA'' @ CHR 0x0A # ''AA'') CHR ''.'' 3
      = [''dv1'', ''enc'', ''AA'' @ CHR 0x0A # ''AA'']"
    by (simp add: numeral_3_eq_3)
  moreover have "DecodeString encodeURL (''AA'' @ CHR 0x0A # ''AA'') = Some [0, 0, 0]"
    unfolding DecodeString_def decode_loop_newline by (simp add: quantum_def)
  ultimately have "Decode (''dv1.enc.AA'' @ CHR 0x0A # ''AA'') = Inr (''dv1'', Encrypted, [0, 0, 0])"
    by (simp add: Decode_def Encrypted_def)
  moreover have "segments (''dv1.enc.AA'' @ CHR 0x0A # ''AA'')
      = [''dv1'', ''enc'', ''AA'' @ CHR 0x0A # ''AA'']"
    by simp
  ultimately show ?thesis
    using newline_not_base64(1) by simp
qed

lemma decode_loop_totp:
  "decode_loop encodeStd [] ''dG90cA'' = Some (quantum 29 6 61 52 @ take 1 (quantum 28 0 0 0))"
  by (simp add: index_Std)

lemma quantum_totp: "quantum 29 6 61 52 @ take 1 (quantum 28 0 0 0) = [116, 111, 116, 112]"
  by (simp add: quantum_def)

lemma DecodeString_totp: "DecodeString encodeStd ''dG90cA'' = Some (bytes_of ''totp'')"
  unfolding DecodeString_def decode_loop_totp quantum_totp by (simp add: bytes_of_def)

lemma keyRingToBytes_no_colon:
  "CHR '':'' \<notin> set keyRing \<Longrightarrow> keyRingToBytes keyRing = bytes_of keyRing"
  by (simp add: keyRingToBytes_def IndexRune_def index_of_no_dot)

lemma keyRingToBytes_colon:
  assumes "CHR '':'' \<notin> set label"
  shows "keyRingToBytes (label @ CHR '':'' # suffix)
           = (case DecodeString encodeStd suffix of
                Some decoded \<Rightarrow> decoded
              | None \<Rightarrow> bytes_of (label @ CHR '':'' # suffix))"
proof -
  have "nat (int (length label) + 1) = Suc (length label)"
    by simp
  moreover have "drop (Suc (length label)) (label @ CHR '':'' # suffix) = suffix"
    by simp
  ultimately have "drop (nat (int (length label) + 1)) (label @ CHR '':'' # suffix) = suffix"
    by (simp only:)
  moreover have "IndexRune (label @ CHR '':'' # suffix) CHR '':'' = int (length label)"
    using assms by (simp add: IndexRune_def index_of_append)
  ultimately show ?thesis
    by (simp add: keyRingToBytes_def Let_def split: option.splits)
qed

text \<open>
  C6, as the code has it. \<^verbatim>\<open>Decode\<close> returns an error exactly when the input is not
  made of three dot-separated segments \<open>dv1\<close>, a known type prefix, and data that the
  decoder of the library accepts: data in which, once \<open>\n\<close> and \<open>\r\<close> are dropped,
  every character is in the URL-safe alphabet and the length is not 1 modulo 4. In
  particular it rejects another number of segments, another version, another type
  prefix, such data, and the four inputs of the specification.
\<close>

theorem Decode_rejects:
  "(isl (Decode s) \<longleftrightarrow>
      \<not> (\<exists>t d. segments s = [''dv1'', t, d] \<and> t \<in> {Encrypted, Signed, Tagged, TOTP_prefix}
               \<and> raw_valid encodeURL d))
   \<and> (length (segments s) \<noteq> 3 \<longrightarrow> isl (Decode s))
   \<and> (segments s = [v, t, d] \<and> v \<noteq> ''dv1'' \<longrightarrow> isl (Decode s))
   \<and> (segments s = [v, t, d] \<and> t \<notin> {Encrypted, Signed, Tagged, TOTP_prefix} \<longrightarrow> isl (Decode s))
   \<and> (segments s = [v, t, d] \<and> \<not> raw_valid encodeURL d \<longrightarrow> isl (Decode s))
   \<and> isl (Decode ''dv2.enc.AAAA'') \<and> isl (Decode ''dv1.xxx.AAAA'')
   \<and> isl (Decode ''dv1.enc'') \<and> isl (Decode ''dv1.enc.!!!'')"
  using Decode_accepts_iff [of s]
  by (auto simp: Decode_dv2 Decode_xxx Decode_two_parts Decode_bangs)

theorem Decode_rejects_witness:
  "segments ''dv1.enc.A'' = [''dv1'', ''enc'', ''A''] \<and> \<not> raw_valid encodeURL ''A''
   \<and> isl (Decode ''dv1.enc.A'') \<and> segments ''dv1.enc.AA.AA'' = [''dv1'', ''enc'', ''AA'', ''AA'']
   \<and> isl (Decode ''dv1.enc.AA.AA'')"
proof -
  have s: "segments ''dv1.enc.A'' = [''dv1'', ''enc'', ''A'']"
    by simp
  have v: "\<not> raw_valid encodeURL ''A''"
    by (simp add: raw_valid_def skipped_def)
  have s4: "segments ''dv1.enc.AA.AA'' = [''dv1'', ''enc'', ''AA'', ''AA'']"
    by simp
  then have l: "length (segments ''dv1.enc.AA.AA'') \<noteq> 3"
    by simp
  have "isl (Decode ''dv1.enc.A'')"
    using Decode_rejects [of "''dv1.enc.A''" "''dv1''" "''enc''" "''A''"] s v by blast
  moreover have "isl (Decode ''dv1.enc.AA.AA'')"
    using Decode_rejects [of "''dv1.enc.AA.AA''"] l by blast
  ultimately show ?thesis
    using s v s4 by blast
qed

subsection \<open>utils/dvx: primitive, key pool and protocol\<close>

lemma ReadFull_length: "ReadFull reader n = Some b \<Longrightarrow> length b = n"
  by (auto simp: ReadFull_def split: option.splits if_splits)

text \<open>
  C2. For a key of 32 bytes and any nonce of 24 bytes that the random source
  delivers, \<^verbatim>\<open>Encrypt\<close> succeeds; its result is the nonce followed by the output of
  \<^verbatim>\<open>Seal\<close> on the plaintext with associated data \<open>dv1\<close> followed by the nonce, which is
  as long as the plaintext plus a tag of 16 bytes; and \<^verbatim>\<open>Decrypt\<close> with the same key
  returns the plaintext. The two facts used of XChaCha20-Poly1305 are that \<^verbatim>\<open>Open\<close>
  inverts \<^verbatim>\<open>Seal\<close> under the same key, nonce and associated data, and that \<^verbatim>\<open>Seal\<close>
  adds 16 bytes.
\<close>

theorem Encrypt_Decrypt:
  assumes "length k = 32"
    and "ReadFull reader 24 = Some nonce"
    and "\<forall>n p ad. length n = 24 \<longrightarrow> aead_Open L k n (aead_Seal L k n p ad) ad = Some p"
    and "\<forall>n p ad. length (aead_Seal L k n p ad) = length p + 16"
  shows "Encrypt L reader k d = Inr (nonce @ aead_Seal L k nonce d (bytes_of ''dv1'' @ nonce))
    \<and> length nonce = 24
    \<and> length (aead_Seal L k nonce d (bytes_of ''dv1'' @ nonce)) = length d + 16
    \<and> Decrypt L k (nonce @ aead_Seal L k nonce d (bytes_of ''dv1'' @ nonce)) = Inr d"
proof -
  have n: "length nonce = 24"
    using assms(2) by (rule ReadFull_length)
  have e: "Encrypt L reader k d = Inr (nonce @ aead_Seal L k nonce d (bytes_of ''dv1'' @ nonce))"
    using assms(1,2) by (simp add: Encrypt_def Version_def)
  have "aead_Open L k nonce (aead_Seal L k nonce d (bytes_of ''dv1'' @ nonce)) (bytes_of ''dv1'' @ nonce)
      = Some d"
    using assms(3) n by blast
  then have "Decrypt L k (nonce @ aead_Seal L k nonce d (bytes_of ''dv1'' @ nonce)) = Inr d"
    using assms(1) n by (simp add: Decrypt_def Version_def)
  then show ?thesis
    using n e assms(4) by simp
qed

theorem Encrypt_Decrypt_witness:
  "length (replicate 32 (1 :: byte)) = 32
   \<and> ReadFull (Some (replicate 40 7)) 24 = Some (replicate 24 7)
   \<and> (\<forall>n p ad. aead_Open standin (replicate 32 1) n (aead_Seal standin (replicate 32 1) n p ad) ad = Some p)
   \<and> (\<forall>n p ad. length (aead_Seal standin (replicate 32 1) n p ad) = length p + 16)
   \<and> Decrypt standin (replicate 32 1)
        (replicate 24 7 @ aead_Seal standin (replicate 32 1) (replicate 24 7) (bytes_of ''data'')
                            (bytes_of ''dv1'' @ replicate 24 7))
      = Inr (bytes_of ''data'')"
proof -
  have a: "length (replicate 32 (1 :: byte)) = 32"
    by simp
  have b: "ReadFull (Some (replicate 40 7)) 24 = Some (replicate 24 7)"
    by (simp add: ReadFull_def)
  have c: "\<forall>n p ad. aead_Open standin (replicate 32 1) n (aead_Seal standin (replicate 32 1) n p ad) ad = Some p"
    by (simp add: standin_def standin_Seal_def standin_Open_def)
  then have c': "\<forall>n p ad. length n = 24 \<longrightarrow>
      aead_Open standin (replicate 32 1) n (aead_Seal standin (replicate 32 1) n p ad) ad = Some p"
    by blast
  have d: "\<forall>n p ad. length (aead_Seal standin (replicate 32 1) n p ad) = length p + 16"
    by (simp add: standin_def standin_Seal_def)
  show ?thesis
    using Encrypt_Decrypt [OF a b c' d, of "bytes_of ''data''"] a b c d by blast
qed

text \<open>
  C4, as the code has it. \<^verbatim>\<open>Close\<close> returns no error, leaves every buffer in memory as
  it was, and leaves the pool without a reference to the root key: the field is
  \<^verbatim>\<open>nil\<close>. With the primitive DV1 both derivations then fail on the length of the MAC
  key.
\<close>

theorem Close_drops_reference:
  "wrapper_Close mem d = (None, mem, d\<lparr>rootKey := None\<rparr>)
   \<and> slice_bytes mem (rootKey (d\<lparr>rootKey := None\<rparr>)) = []
   \<and> (dvx d = DV1 L \<longrightarrow>
        wrapper_KDF32 mem (d\<lparr>rootKey := None\<rparr>) keyRing = Inl MacKeyLength
        \<and> wrapper_KDF64 mem (d\<lparr>rootKey := None\<rparr>) keyRing = Inl MacKeyLength)"
  by (simp add: wrapper_Close_def slice_bytes_def wrapper_KDF32_def wrapper_KDF64_def kdf_def
      DV1_def MAC256_def MAC512_def)

theorem Close_drops_reference_witness:
  "dvx test_wrapper = DV1 standin
   \<and> wrapper_Close test_mem test_wrapper = (None, test_mem, test_wrapper\<lparr>rootKey := None\<rparr>)
   \<and> wrapper_KDF32 test_mem (test_wrapper\<lparr>rootKey := None\<rparr>) (bytes_of ''totp'') = Inl MacKeyLength
   \<and> wrapper_KDF32 test_mem test_wrapper (bytes_of ''totp'') = Inr (replicate 32 0)"
proof -
  have a: "dvx test_wrapper = DV1 standin"
    by (simp add: test_wrapper_def WrapDVXAsKeyPool_def)
  have b: "wrapper_KDF32 test_mem test_wrapper (bytes_of ''totp'') = Inr (replicate 32 0)"
    by (simp add: wrapper_KDF32_def kdf_def test_wrapper_def WrapDVXAsKeyPool_def DV1_def
        MAC256_def slice_bytes_def test_mem_def test_root_def standin_def standin_MAC256_def)
  show ?thesis
    using Close_drops_reference [of test_mem test_wrapper standin "bytes_of ''totp''"] a b
    by blast
qed

text \<open>
  C4, as the claim states it, fails: the pool is made over the buffer at address 0,
  which holds 64 bytes of value 42; after \<^verbatim>\<open>Close\<close> the buffer holds the same 64 bytes,
  none of them zero.
\<close>

theorem Close_counterexample:
  "rootKey test_wrapper = Some 0
   \<and> slice_bytes test_mem (rootKey test_wrapper) = replicate 64 42
   \<and> slice_bytes (fst (snd (wrapper_Close test_mem test_wrapper))) (Some 0) = replicate 64 42
   \<and> replicate 64 (42 :: byte) \<noteq> replicate 64 0"
  by (simp add: wrapper_Close_def slice_bytes_def test_mem_def test_root_def test_wrapper_def
      WrapDVXAsKeyPool_def)

lemma deriveTOTPKey_chain:
  "keys p Version = Some pool \<Longrightarrow>
     deriveTOTPKey L p kr rawID accountID ''dv1'' = Some (totp_secret L pool kr rawID accountID)"
  by (simp add: deriveTOTPKey_def totp_secret_def split: sum.splits)

lemma DecodeExpect_version:
  "DecodeExpect ident expected = Inr (v, rawID) \<Longrightarrow> v = ''dv1''"
  by (auto simp: DecodeExpect_def Decode_def Let_def split: sum.splits if_splits option.splits)

lemma DecodeExpect_Encode:
  "DecodeExpect (Encode TOTP_prefix rawID) TOTP_prefix = Inr (''dv1'', rawID)"
proof -
  have "Decode (Encode TOTP_prefix rawID) = Inr (''dv1'', TOTP_prefix, rawID)"
    by (rule Decode_of_Encode) simp
  then show ?thesis
    by (simp add: DecodeExpect_def)
qed

lemma Verify_error_nil: "Verify hmac now t code = Some (valid, err) \<Longrightarrow> err = None"
  by (auto simp: Verify_def split: option.splits sum.splits)





subsection \<open>utils/dvx: key rings in the protocol\<close>

lemma DecodeExpect_Encode_Encrypted:
  "DecodeExpect (Encode Encrypted c) Encrypted = Inr (''dv1'', c)"
proof -
  have "Decode (Encode Encrypted c) = Inr (''dv1'', Encrypted, c)"
    by (rule Decode_of_Encode) simp
  then show ?thesis
    by (simp add: DecodeExpect_def)
qed

lemma Decrypt_of_sealed:
  assumes "length k = 32" and "length nonce = 24"
    and "\<forall>n pt ad. length n = 24 \<longrightarrow> aead_Open L k n (aead_Seal L k n pt ad) ad = Some pt"
  shows "Decrypt L k (nonce @ aead_Seal L k nonce d (bytes_of Version @ nonce)) = Inr d"
proof -
  have "aead_Open L k nonce (aead_Seal L k nonce d (bytes_of Version @ nonce)) (bytes_of Version @ nonce)
      = Some d"
    using assms(2,3) by blast
  then show ?thesis
    using assms(1,2) by (simp add: Decrypt_def)
qed

lemma Protocol_Encrypt_key:
  assumes "keys p Version = Some pool"
  shows "Protocol_Encrypt L p reader keyRing data =
      Some (case KDF32 pool (keyRingToBytes keyRing) of
              Inl err \<Rightarrow> Inl err
            | Inr k \<Rightarrow>
                (case Encrypt L reader k data of
                   Inl err \<Rightarrow> Inl err
                 | Inr cipher \<Rightarrow> Inr (Encode Encrypted cipher)))"
  using assms by (simp add: Protocol_Encrypt_def)

lemma Protocol_Decrypt_key:
  assumes "keys p Version = Some pool" and "DecodeExpect ciphertext Encrypted = Inr (v, c)"
  shows "Protocol_Decrypt L p keyRing ciphertext =
      Some (case KDF32 pool (keyRingToBytes keyRing) of
              Inl err \<Rightarrow> Inl err
            | Inr k \<Rightarrow> Decrypt L k c)"
proof -
  have "v = ''dv1''"
    using assms(2) by (rule DecodeExpect_version)
  then show ?thesis
    using assms by (simp add: Protocol_Decrypt_def decrypt_def Version_def)
qed

lemma Protocol_MAC_key:
  assumes "keys p Version = Some pool"
  shows "Protocol_MAC L p keyRing message =
      Some (case KDF64 pool (keyRingToBytes keyRing) of
              Inl err \<Rightarrow> Inl err
            | Inr k \<Rightarrow>
                (case MAC512 L k message of
                   Inl err \<Rightarrow> Inl err
                 | Inr buffer \<Rightarrow> Inr (Encode Tagged buffer)))"
  using assms by (simp add: Protocol_MAC_def)

lemma deriveSignKey_seed:
  assumes "keys p Version = Some pool"
  shows "deriveSignKey E p kr ''dv1'' =
      (case KDF32 pool kr of
         Inl err \<Rightarrow> Some (Inl err)
       | Inr seed \<Rightarrow> if length seed \<noteq> 32 then None else Some (Inr (NewKeyFromSeed E seed)))"
  using assms by (simp add: deriveSignKey_def)

lemma Protocol_CreateSignKey_key:
  assumes "keys p Version = Some pool"
  shows "Protocol_CreateSignKey E p keyRing =
      (case KDF32 pool (keyRingToBytes keyRing) of
         Inl err \<Rightarrow> Some (Inl err)
       | Inr seed \<Rightarrow>
           if length seed \<noteq> 32 then None
           else map_option Inr (Public (NewKeyFromSeed E seed)))"
  using deriveSignKey_seed [OF assms, of E "keyRingToBytes keyRing"]
  by (simp add: Protocol_CreateSignKey_def Version_def split: sum.splits)

lemma Protocol_Sign_key:
  assumes "keys p Version = Some pool"
  shows "Protocol_Sign E p keyRing message =
      (case KDF32 pool (keyRingToBytes keyRing) of
         Inl err \<Rightarrow> Some (Inl err)
       | Inr seed \<Rightarrow>
           if length seed \<noteq> 32 then None
           else Some (case DV1_Sign E (NewKeyFromSeed E seed) message of
                        Inl err \<Rightarrow> Inl err
                      | Inr sig \<Rightarrow> Inr (Encode Signed sig, sig)))"
  using deriveSignKey_seed [OF assms, of E "keyRingToBytes keyRing"]
  by (simp add: Protocol_Sign_def Version_def split: sum.splits)

lemma Protocol_Verify_key:
  assumes "keys p Version = Some pool" and "DecodeExpect signature Signed = Inr (v, sig)"
  shows "Protocol_Verify E p keyRing message signature =
      (case KDF32 pool (keyRingToBytes keyRing) of
         Inl err \<Rightarrow> Some (Inl err)
       | Inr seed \<Rightarrow>
           if length seed \<noteq> 32 then None
           else map_option (\<lambda>publicKey. DV1_Verify E publicKey message sig)
                  (Public (NewKeyFromSeed E seed)))"
proof -
  have "v = ''dv1''"
    using assms(2) by (rule DecodeExpect_version)
  then show ?thesis
    using assms(2) deriveSignKey_seed [OF assms(1), of E "keyRingToBytes keyRing"]
    by (simp add: Protocol_Verify_def verify_def verifyPK_def split: sum.splits option.splits)
qed

lemma GenerateTOTP_key:
  assumes "keys p Version = Some pool"
  shows "GenerateTOTP L p reader keyRing issuer accountName accountID =
      (case ReadFull reader 32 of
         None \<Rightarrow> Some (Inl CannotGenerateTotpId)
       | Some rawID \<Rightarrow>
           Some (case totp_secret L pool (keyRingToBytes keyRing) rawID accountID of
                   Inl err \<Rightarrow> Inl err
                 | Inr secret \<Rightarrow>
                     Inr (Encode TOTP_prefix rawID,
                          URI L (protocol_totp secret issuer accountName))))"
  using deriveTOTPKey_chain [OF assms, of L]
  by (simp add: GenerateTOTP_def Let_def Version_def protocol_totp_def
      split: option.splits sum.splits)

lemma VerifyTOTP_key:
  assumes "keys p Version = Some pool" and "DecodeExpect ident TOTP_prefix = Inr (v, raw)"
  shows "VerifyTOTP L p now keyRing ident accountID code =
      (case totp_secret L pool (keyRingToBytes keyRing) raw accountID of
         Inl err \<Rightarrow> Some (Inl err)
       | Inr secret \<Rightarrow>
           map_option (\<lambda>r. Inr (fst r))
             (Verify (hmac_Sum L) now (protocol_totp secret [] []) code))"
proof -
  have v1: "v = ''dv1''"
    using assms(2) by (rule DecodeExpect_version)
  show ?thesis
  proof (cases "totp_secret L pool (keyRingToBytes keyRing) raw accountID")
    case (Inl err)
    then show ?thesis
      using assms(2) v1 deriveTOTPKey_chain [OF assms(1), of L "keyRingToBytes keyRing" raw accountID]
      by (simp add: VerifyTOTP_def)
  next
    case (Inr secret)
    have "(case Verify (hmac_Sum L) now (protocol_totp secret [] []) code of
             None \<Rightarrow> None
           | Some (valid, None) \<Rightarrow> Some (Inr valid)
           | Some (valid, Some err) \<Rightarrow> Some (Inl (TotpFailure err)))
        = map_option (\<lambda>r. Inr (fst r)) (Verify (hmac_Sum L) now (protocol_totp secret [] []) code)"
      using Verify_error_nil [of "hmac_Sum L" now "protocol_totp secret [] []" code]
      by (auto split: option.splits)
    then show ?thesis
      using Inr assms(2) v1 deriveTOTPKey_chain [OF assms(1), of L "keyRingToBytes keyRing" raw accountID]
      by (simp add: VerifyTOTP_def protocol_totp_def)
  qed
qed

lemma Decrypt_other_label:
  assumes "keys p Version = Some pool"
    and "keyRingToBytes keyRing1 = keyRingToBytes keyRing2"
    and "KDF32 pool (keyRingToBytes keyRing1) = Inr k" and "length k = 32"
    and "ReadFull reader 24 = Some nonce"
    and "\<forall>n pt ad. length n = 24 \<longrightarrow> aead_Open L k n (aead_Seal L k n pt ad) ad = Some pt"
  shows "\<exists>ciphertext. Protocol_Encrypt L p reader keyRing1 data = Some (Inr ciphertext)
           \<and> Protocol_Decrypt L p keyRing2 ciphertext = Some (Inr data)"
proof -
  define cipher where "cipher = nonce @ aead_Seal L k nonce data (bytes_of Version @ nonce)"
  have n: "length nonce = 24"
    using assms(5) by (rule ReadFull_length)
  have "Encrypt L reader k data = Inr cipher"
    using assms(4,5) by (simp add: Encrypt_def cipher_def)
  then have e: "Protocol_Encrypt L p reader keyRing1 data = Some (Inr (Encode Encrypted cipher))"
    using assms(3) by (simp add: Protocol_Encrypt_key [OF assms(1)])
  have "Decrypt L k cipher = Inr data"
    unfolding cipher_def using assms(4) n assms(6) by (rule Decrypt_of_sealed)
  then have "Protocol_Decrypt L p keyRing2 (Encode Encrypted cipher) = Some (Inr data)"
    using assms(2,3)
    by (simp add: Protocol_Decrypt_key [OF assms(1) DecodeExpect_Encode_Encrypted])
  with e show ?thesis by blast
qed

lemma DecodeExpect_Encode_Signed:
  "DecodeExpect (Encode Signed c) Signed = Inr (''dv1'', c)"
proof -
  have "Decode (Encode Signed c) = Inr (''dv1'', Signed, c)"
    by (rule Decode_of_Encode) simp
  then show ?thesis
    by (simp add: DecodeExpect_def)
qed

lemma standin_opens:
  "\<forall>n pt ad. length n = 24 \<longrightarrow>
     aead_Open standin k n (aead_Seal standin k n pt ad) ad = Some pt"
  by (simp add: standin_def standin_Seal_def standin_Open_def)

text \<open>
  C1. A key ring without a colon is used as its own bytes. A key ring with a colon
  splits at the first one into a label and a suffix: when the suffix decodes as
  unpadded standard base64 the decoded bytes are used, otherwise the bytes of the
  whole key ring. These bytes, \<^verbatim>\<open>keyRingToBytes\<close> of the key ring, are what every operation
  of the protocol gives to the pool of the current version: \<^verbatim>\<open>Encrypt\<close>, \<^verbatim>\<open>Decrypt\<close>,
  \<^verbatim>\<open>CreateSignKey\<close>, \<^verbatim>\<open>Sign\<close> and \<^verbatim>\<open>Verify\<close> to \<^verbatim>\<open>KDF32\<close>, and \<^verbatim>\<open>MAC\<close>, \<^verbatim>\<open>GenerateTOTP\<close> and
  \<^verbatim>\<open>VerifyTOTP\<close> to \<^verbatim>\<open>KDF64\<close>; the key that comes back is the one the primitive is run
  with. So for two key rings with the same decodable suffix, whatever their labels,
  the input of the derivation is the decoded suffix for both, and what is encrypted
  under the one is decrypted under the other.
\<close>

theorem keyRing_normalization:
  "(CHR '':'' \<notin> set keyRing \<longrightarrow> keyRingToBytes keyRing = bytes_of keyRing)
   \<and> (CHR '':'' \<notin> set label \<longrightarrow>
        keyRingToBytes (label @ CHR '':'' # suffix)
          = (case DecodeString encodeStd suffix of
               Some decoded \<Rightarrow> decoded
             | None \<Rightarrow> bytes_of (label @ CHR '':'' # suffix)))
   \<and> (keys p Version = Some pool \<longrightarrow>
        Protocol_Encrypt L p reader keyRing data =
          Some (case KDF32 pool (keyRingToBytes keyRing) of
                  Inl err \<Rightarrow> Inl err
                | Inr k \<Rightarrow>
                    (case Encrypt L reader k data of
                       Inl err \<Rightarrow> Inl err
                     | Inr cipher \<Rightarrow> Inr (Encode Encrypted cipher)))
        \<and> (DecodeExpect ciphertext Encrypted = Inr (v, c) \<longrightarrow>
             Protocol_Decrypt L p keyRing ciphertext =
               Some (case KDF32 pool (keyRingToBytes keyRing) of
                       Inl err \<Rightarrow> Inl err
                     | Inr k \<Rightarrow> Decrypt L k c))
        \<and> Protocol_MAC L p keyRing message =
            Some (case KDF64 pool (keyRingToBytes keyRing) of
                    Inl err \<Rightarrow> Inl err
                  | Inr k \<Rightarrow>
                      (case MAC512 L k message of
                         Inl err \<Rightarrow> Inl err
                       | Inr buffer \<Rightarrow> Inr (Encode Tagged buffer)))
        \<and> Protocol_CreateSignKey E p keyRing =
            (case KDF32 pool (keyRingToBytes keyRing) of
               Inl err \<Rightarrow> Some (Inl err)
             | Inr seed \<Rightarrow>
                 if length seed \<noteq> 32 then None
                 else map_option Inr (Public (NewKeyFromSeed E seed)))
        \<and> Protocol_Sign E p keyRing message =
            (case KDF32 pool (keyRingToBytes keyRing) of
               Inl err \<Rightarrow> Some (Inl err)
             | Inr seed \<Rightarrow>
                 if length seed \<noteq> 32 then None
                 else Some (case DV1_Sign E (NewKeyFromSeed E seed) message of
                              Inl err \<Rightarrow> Inl err
                            | Inr sig \<Rightarrow> Inr (Encode Signed sig, sig)))
        \<and> (DecodeExpect signature Signed = Inr (v2, sig) \<longrightarrow>
             Protocol_Verify E p keyRing message signature =
               (case KDF32 pool (keyRingToBytes keyRing) of
                  Inl err \<Rightarrow> Some (Inl err)
                | Inr seed \<Rightarrow>
                    if length seed \<noteq> 32 then None
                    else map_option (\<lambda>publicKey. DV1_Verify E publicKey message sig)
                           (Public (NewKeyFromSeed E seed))))
        \<and> GenerateTOTP L p reader keyRing issuer accountName accountID =
            (case ReadFull reader 32 of
               None \<Rightarrow> Some (Inl CannotGenerateTotpId)
             | Some rawID \<Rightarrow>
                 Some (case KDF64 pool (keyRingToBytes keyRing) of
                         Inl err \<Rightarrow> Inl err
                       | Inr totpSK \<Rightarrow>
                           (case MAC512 L totpSK rawID of
                              Inl err \<Rightarrow> Inl err
                            | Inr intermediate \<Rightarrow>
                                (case MAC256 L intermediate (bytes_of accountID) of
                                   Inl err \<Rightarrow> Inl err
                                 | Inr secret \<Rightarrow>
                                     Inr (Encode TOTP_prefix rawID,
                                          URI L (protocol_totp secret issuer accountName))))))
        \<and> (DecodeExpect ident TOTP_prefix = Inr (v3, raw) \<longrightarrow>
             VerifyTOTP L p now keyRing ident accountID code =
               (case KDF64 pool (keyRingToBytes keyRing) of
                  Inl err \<Rightarrow> Some (Inl err)
                | Inr totpSK \<Rightarrow>
                    (case MAC512 L totpSK raw of
                       Inl err \<Rightarrow> Some (Inl err)
                     | Inr intermediate \<Rightarrow>
                         (case MAC256 L intermediate (bytes_of accountID) of
                            Inl err \<Rightarrow> Some (Inl err)
                          | Inr secret \<Rightarrow>
                              map_option (\<lambda>r. Inr (fst r))
                                (Verify (hmac_Sum L) now (protocol_totp secret [] []) code))))))
   \<and> (CHR '':'' \<notin> set label1 \<and> CHR '':'' \<notin> set label2
        \<and> DecodeString encodeStd suffix = Some decoded \<longrightarrow>
        keyRingToBytes (label1 @ CHR '':'' # suffix) = decoded
        \<and> keyRingToBytes (label2 @ CHR '':'' # suffix) = decoded
        \<and> (keys p Version = Some pool \<longrightarrow>
             Protocol_MAC L p (label1 @ CHR '':'' # suffix) message =
               Some (case KDF64 pool decoded of
                       Inl err \<Rightarrow> Inl err
                     | Inr k \<Rightarrow>
                         (case MAC512 L k message of
                            Inl err \<Rightarrow> Inl err
                          | Inr buffer \<Rightarrow> Inr (Encode Tagged buffer)))
             \<and> Protocol_MAC L p (label2 @ CHR '':'' # suffix) message
                 = Protocol_MAC L p (label1 @ CHR '':'' # suffix) message
             \<and> Protocol_Sign E p (label2 @ CHR '':'' # suffix) message
                 = Protocol_Sign E p (label1 @ CHR '':'' # suffix) message
             \<and> Protocol_CreateSignKey E p (label2 @ CHR '':'' # suffix)
                 = Protocol_CreateSignKey E p (label1 @ CHR '':'' # suffix))
        \<and> (keys p Version = Some pool \<and> KDF32 pool decoded = Inr k \<and> length k = 32
             \<and> ReadFull reader 24 = Some nonce
             \<and> (\<forall>n pt ad. length n = 24 \<longrightarrow>
                    aead_Open L k n (aead_Seal L k n pt ad) ad = Some pt) \<longrightarrow>
             (\<exists>sealed.
                 Protocol_Encrypt L p reader (label1 @ CHR '':'' # suffix) data = Some (Inr sealed)
                 \<and> Protocol_Decrypt L p (label2 @ CHR '':'' # suffix) sealed = Some (Inr data))))"
proof -
  have a: "CHR '':'' \<notin> set keyRing \<longrightarrow> keyRingToBytes keyRing = bytes_of keyRing"
    by (simp add: keyRingToBytes_no_colon)
  have b: "CHR '':'' \<notin> set label \<longrightarrow>
        keyRingToBytes (label @ CHR '':'' # suffix)
          = (case DecodeString encodeStd suffix of
               Some decoded \<Rightarrow> decoded
             | None \<Rightarrow> bytes_of (label @ CHR '':'' # suffix))"
    by (simp add: keyRingToBytes_colon)
  have g: "GenerateTOTP L p reader keyRing issuer accountName accountID =
            (case ReadFull reader 32 of
               None \<Rightarrow> Some (Inl CannotGenerateTotpId)
             | Some rawID \<Rightarrow>
                 Some (case KDF64 pool (keyRingToBytes keyRing) of
                         Inl err \<Rightarrow> Inl err
                       | Inr totpSK \<Rightarrow>
                           (case MAC512 L totpSK rawID of
                              Inl err \<Rightarrow> Inl err
                            | Inr intermediate \<Rightarrow>
                                (case MAC256 L intermediate (bytes_of accountID) of
                                   Inl err \<Rightarrow> Inl err
                                 | Inr secret \<Rightarrow>
                                     Inr (Encode TOTP_prefix rawID,
                                          URI L (protocol_totp secret issuer accountName))))))"
    if "keys p Version = Some pool"
    unfolding GenerateTOTP_key [OF that] totp_secret_def
    by (simp split: option.splits sum.splits)
  have vt: "VerifyTOTP L p now keyRing ident accountID code =
               (case KDF64 pool (keyRingToBytes keyRing) of
                  Inl err \<Rightarrow> Some (Inl err)
                | Inr totpSK \<Rightarrow>
                    (case MAC512 L totpSK raw of
                       Inl err \<Rightarrow> Some (Inl err)
                     | Inr intermediate \<Rightarrow>
                         (case MAC256 L intermediate (bytes_of accountID) of
                            Inl err \<Rightarrow> Some (Inl err)
                          | Inr secret \<Rightarrow>
                              map_option (\<lambda>r. Inr (fst r))
                                (Verify (hmac_Sum L) now (protocol_totp secret [] []) code))))"
    if "keys p Version = Some pool" "DecodeExpect ident TOTP_prefix = Inr (v3, raw)"
    unfolding VerifyTOTP_key [OF that] totp_secret_def
    by (simp split: option.splits sum.splits)
  have c: "keys p Version = Some pool \<longrightarrow>
        Protocol_Encrypt L p reader keyRing data =
          Some (case KDF32 pool (keyRingToBytes keyRing) of
                  Inl err \<Rightarrow> Inl err
                | Inr k \<Rightarrow>
                    (case Encrypt L reader k data of
                       Inl err \<Rightarrow> Inl err
                     | Inr cipher \<Rightarrow> Inr (Encode Encrypted cipher)))
        \<and> (DecodeExpect ciphertext Encrypted = Inr (v, c) \<longrightarrow>
             Protocol_Decrypt L p keyRing ciphertext =
               Some (case KDF32 pool (keyRingToBytes keyRing) of
                       Inl err \<Rightarrow> Inl err
                     | Inr k \<Rightarrow> Decrypt L k c))
        \<and> Protocol_MAC L p keyRing message =
            Some (case KDF64 pool (keyRingToBytes keyRing) of
                    Inl err \<Rightarrow> Inl err
                  | Inr k \<Rightarrow>
                      (case MAC512 L k message of
                         Inl err \<Rightarrow> Inl err
                       | Inr buffer \<Rightarrow> Inr (Encode Tagged buffer)))
        \<and> Protocol_CreateSignKey E p keyRing =
            (case KDF32 pool (keyRingToBytes keyRing) of
               Inl err \<Rightarrow> Some (Inl err)
             | Inr seed \<Rightarrow>
                 if length seed \<noteq> 32 then None
                 else map_option Inr (Public (NewKeyFromSeed E seed)))
        \<and> Protocol_Sign E p keyRing message =
            (case KDF32 pool (keyRingToBytes keyRing) of
               Inl err \<Rightarrow> Some (Inl err)
             | Inr seed \<Rightarrow>
                 if length seed \<noteq> 32 then None
                 else Some (case DV1_Sign E (NewKeyFromSeed E seed) message of
                              Inl err \<Rightarrow> Inl err
                            | Inr sig \<Rightarrow> Inr (Encode Signed sig, sig)))
        \<and> (DecodeExpect signature Signed = Inr (v2, sig) \<longrightarrow>
             Protocol_Verify E p keyRing message signature =
               (case KDF32 pool (keyRingToBytes keyRing) of
                  Inl err \<Rightarrow> Some (Inl err)
                | Inr seed \<Rightarrow>
                    if length seed \<noteq> 32 then None
                    else map_option (\<lambda>publicKey. DV1_Verify E publicKey message sig)
                           (Public (NewKeyFromSeed E seed))))
        \<and> GenerateTOTP L p reader keyRing issuer accountName accountID =
            (case ReadFull reader 32 of
               None \<Rightarrow> Some (Inl CannotGenerateTotpId)
             | Some rawID \<Rightarrow>
                 Some (case KDF64 pool (keyRingToBytes keyRing) of
                         Inl err \<Rightarrow> Inl err
                       | Inr totpSK \<Rightarrow>
                           (case MAC512 L totpSK rawID of
                              Inl err \<Rightarrow> Inl err
                            | Inr intermediate \<Rightarrow>
                                (case MAC256 L intermediate (bytes_of accountID) of
                                   Inl err \<Rightarrow> Inl err
                                 | Inr secret \<Rightarrow>
                                     Inr (Encode TOTP_prefix rawID,
                                          URI L (protocol_totp secret issuer accountName))))))
        \<and> (DecodeExpect ident TOTP_prefix = Inr (v3, raw) \<longrightarrow>
             VerifyTOTP L p now keyRing ident accountID code =
               (case KDF64 pool (keyRingToBytes keyRing) of
                  Inl err \<Rightarrow> Some (Inl err)
                | Inr totpSK \<Rightarrow>
                    (case MAC512 L totpSK raw of
                       Inl err \<Rightarrow> Some (Inl err)
                     | Inr intermediate \<Rightarrow>
                         (case MAC256 L intermediate (bytes_of accountID) of
                            Inl err \<Rightarrow> Some (Inl err)
                          | Inr secret \<Rightarrow>
                              map_option (\<lambda>r. Inr (fst r))
                                (Verify (hmac_Sum L) now (protocol_totp secret [] []) code)))))"
    using Protocol_Encrypt_key [of p pool L reader keyRing data]
      Protocol_Decrypt_key [of p pool ciphertext v c L keyRing]
      Protocol_MAC_key [of p pool L keyRing message]
      Protocol_CreateSignKey_key [of p pool E keyRing]
      Protocol_Sign_key [of p pool E keyRing message]
      Protocol_Verify_key [of p pool signature v2 sig E keyRing message]
      g vt
    by blast
  have d: "CHR '':'' \<notin> set label1 \<and> CHR '':'' \<notin> set label2
        \<and> DecodeString encodeStd suffix = Some decoded \<longrightarrow>
        keyRingToBytes (label1 @ CHR '':'' # suffix) = decoded
        \<and> keyRingToBytes (label2 @ CHR '':'' # suffix) = decoded
        \<and> (keys p Version = Some pool \<longrightarrow>
             Protocol_MAC L p (label1 @ CHR '':'' # suffix) message =
               Some (case KDF64 pool decoded of
                       Inl err \<Rightarrow> Inl err
                     | Inr k \<Rightarrow>
                         (case MAC512 L k message of
                            Inl err \<Rightarrow> Inl err
                          | Inr buffer \<Rightarrow> Inr (Encode Tagged buffer)))
             \<and> Protocol_MAC L p (label2 @ CHR '':'' # suffix) message
                 = Protocol_MAC L p (label1 @ CHR '':'' # suffix) message
             \<and> Protocol_Sign E p (label2 @ CHR '':'' # suffix) message
                 = Protocol_Sign E p (label1 @ CHR '':'' # suffix) message
             \<and> Protocol_CreateSignKey E p (label2 @ CHR '':'' # suffix)
                 = Protocol_CreateSignKey E p (label1 @ CHR '':'' # suffix))
        \<and> (keys p Version = Some pool \<and> KDF32 pool decoded = Inr k \<and> length k = 32
             \<and> ReadFull reader 24 = Some nonce
             \<and> (\<forall>n pt ad. length n = 24 \<longrightarrow>
                    aead_Open L k n (aead_Seal L k n pt ad) ad = Some pt) \<longrightarrow>
             (\<exists>sealed.
                 Protocol_Encrypt L p reader (label1 @ CHR '':'' # suffix) data = Some (Inr sealed)
                 \<and> Protocol_Decrypt L p (label2 @ CHR '':'' # suffix) sealed = Some (Inr data)))"
  proof (intro impI)
    assume h: "CHR '':'' \<notin> set label1 \<and> CHR '':'' \<notin> set label2
        \<and> DecodeString encodeStd suffix = Some decoded"
    have k1: "keyRingToBytes (label1 @ CHR '':'' # suffix) = decoded"
      using h by (simp add: keyRingToBytes_colon)
    have k2: "keyRingToBytes (label2 @ CHR '':'' # suffix) = decoded"
      using h by (simp add: keyRingToBytes_colon)
    have m: "Protocol_MAC L p (label1 @ CHR '':'' # suffix) message =
               Some (case KDF64 pool decoded of
                       Inl err \<Rightarrow> Inl err
                     | Inr k \<Rightarrow>
                         (case MAC512 L k message of
                            Inl err \<Rightarrow> Inl err
                          | Inr buffer \<Rightarrow> Inr (Encode Tagged buffer)))
             \<and> Protocol_MAC L p (label2 @ CHR '':'' # suffix) message
                 = Protocol_MAC L p (label1 @ CHR '':'' # suffix) message
             \<and> Protocol_Sign E p (label2 @ CHR '':'' # suffix) message
                 = Protocol_Sign E p (label1 @ CHR '':'' # suffix) message
             \<and> Protocol_CreateSignKey E p (label2 @ CHR '':'' # suffix)
                 = Protocol_CreateSignKey E p (label1 @ CHR '':'' # suffix)"
      if pl: "keys p Version = Some pool"
      unfolding Protocol_MAC_key [OF pl] Protocol_Sign_key [OF pl]
        Protocol_CreateSignKey_key [OF pl] k1 k2
      by simp
    have r: "\<exists>sealed.
                 Protocol_Encrypt L p reader (label1 @ CHR '':'' # suffix) data = Some (Inr sealed)
                 \<and> Protocol_Decrypt L p (label2 @ CHR '':'' # suffix) sealed = Some (Inr data)"
      if "keys p Version = Some pool \<and> KDF32 pool decoded = Inr k \<and> length k = 32
             \<and> ReadFull reader 24 = Some nonce
             \<and> (\<forall>n pt ad. length n = 24 \<longrightarrow>
                    aead_Open L k n (aead_Seal L k n pt ad) ad = Some pt)"
      using that k1 k2
      by (intro Decrypt_other_label [where pool = pool and k = k and nonce = nonce]) simp_all
    show "keyRingToBytes (label1 @ CHR '':'' # suffix) = decoded
        \<and> keyRingToBytes (label2 @ CHR '':'' # suffix) = decoded
        \<and> (keys p Version = Some pool \<longrightarrow>
             Protocol_MAC L p (label1 @ CHR '':'' # suffix) message =
               Some (case KDF64 pool decoded of
                       Inl err \<Rightarrow> Inl err
                     | Inr k \<Rightarrow>
                         (case MAC512 L k message of
                            Inl err \<Rightarrow> Inl err
                          | Inr buffer \<Rightarrow> Inr (Encode Tagged buffer)))
             \<and> Protocol_MAC L p (label2 @ CHR '':'' # suffix) message
                 = Protocol_MAC L p (label1 @ CHR '':'' # suffix) message
             \<and> Protocol_Sign E p (label2 @ CHR '':'' # suffix) message
                 = Protocol_Sign E p (label1 @ CHR '':'' # suffix) message
             \<and> Protocol_CreateSignKey E p (label2 @ CHR '':'' # suffix)
                 = Protocol_CreateSignKey E p (label1 @ CHR '':'' # suffix))
        \<and> (keys p Version = Some pool \<and> KDF32 pool decoded = Inr k \<and> length k = 32
             \<and> ReadFull reader 24 = Some nonce
             \<and> (\<forall>n pt ad. length n = 24 \<longrightarrow>
                    aead_Open L k n (aead_Seal L k n pt ad) ad = Some pt) \<longrightarrow>
             (\<exists>sealed.
                 Protocol_Encrypt L p reader (label1 @ CHR '':'' # suffix) data = Some (Inr sealed)
                 \<and> Protocol_Decrypt L p (label2 @ CHR '':'' # suffix) sealed = Some (Inr data)))"
      using k1 k2 m r by blast
  qed
  show ?thesis
    using a b c d by (intro conjI)
qed

theorem keyRing_normalization_witness:
  "keyRingToBytes ''totp'' = bytes_of ''totp''
   \<and> keyRingToBytes ''totp:dG90cA'' = bytes_of ''totp''
   \<and> keyRingToBytes ''anything:dG90cA'' = bytes_of ''totp''
   \<and> keys echo_protocol Version = Some echo_pool
   \<and> KDF32 echo_pool (keyRingToBytes ''anything:dG90cA'') = Inr (bytes_of ''totp'' @ replicate 28 0)
   \<and> Protocol_CreateSignKey echo_ed25519 echo_protocol ''totp:dG90cA''
        = Some (Inr (bytes_of ''totp'' @ replicate 28 0))
   \<and> Protocol_CreateSignKey echo_ed25519 echo_protocol ''anything:dG90cA''
        = Some (Inr (bytes_of ''totp'' @ replicate 28 0))
   \<and> Protocol_Sign echo_ed25519 echo_protocol ''anything:dG90cA'' (bytes_of ''m'')
        = Some (Inr (Encode Signed ((bytes_of ''totp'' @ replicate 28 0)
                                      @ bytes_of ''totp'' @ replicate 28 0),
                     (bytes_of ''totp'' @ replicate 28 0) @ bytes_of ''totp'' @ replicate 28 0))
   \<and> Protocol_Verify echo_ed25519 echo_protocol ''anything:dG90cA'' (bytes_of ''m'')
          (Encode Signed ((bytes_of ''totp'' @ replicate 28 0) @ bytes_of ''totp'' @ replicate 28 0))
        = Some (Inr True)
   \<and> Protocol_MAC standin echo_protocol ''anything:dG90cA'' (bytes_of ''m'')
        = Protocol_MAC standin echo_protocol ''totp:dG90cA'' (bytes_of ''m'')
   \<and> Protocol_Decrypt standin echo_protocol ''anything:dG90cA''
          (Encode Encrypted (replicate 24 7 @ bytes_of ''data'' @ replicate 16 0))
        = Some (Inr (bytes_of ''data''))
   \<and> VerifyTOTP standin echo_protocol 59 ''anything:dG90cA''
          (Encode TOTP_prefix (replicate 32 1)) ''a1-id'' ''000000''
        = map_option (\<lambda>r. Inr (fst r))
            (Verify rfc4226_hmac 59 (protocol_totp (replicate 32 0) [] []) ''000000'')
   \<and> (\<exists>sealed.
         Protocol_Encrypt standin echo_protocol (Some (replicate 24 7)) ''totp:dG90cA''
             (bytes_of ''data'') = Some (Inr sealed)
         \<and> Protocol_Decrypt standin echo_protocol ''anything:dG90cA'' sealed
             = Some (Inr (bytes_of ''data'')))"
proof -
  define seed :: bytes where "seed = bytes_of ''totp'' @ replicate 28 0"
  define sealed :: bytes where "sealed = replicate 24 7 @ bytes_of ''data'' @ replicate 16 0"
  note t = keyRing_normalization [where keyRing = "''totp''" and label = "''totp''"
      and suffix = "''dG90cA''" and ?label1.0 = "''totp''" and ?label2.0 = "''anything''"
      and decoded = "bytes_of ''totp''" and p = echo_protocol and pool = echo_pool
      and L = standin and E = echo_ed25519 and reader = "Some (replicate 24 7)"
      and data = "bytes_of ''data''" and message = "bytes_of ''m''"
      and k = seed and nonce = "replicate 24 7"]
  note u = keyRing_normalization [where keyRing = "''anything:dG90cA''" and label = "''totp''"
      and suffix = "''dG90cA''" and ?label1.0 = "''totp''" and ?label2.0 = "''anything''"
      and decoded = "bytes_of ''totp''" and p = echo_protocol and pool = echo_pool
      and L = standin and E = echo_ed25519 and reader = "Some (replicate 24 7)"
      and data = "bytes_of ''data''" and message = "bytes_of ''m''"
      and k = seed and nonce = "replicate 24 7"
      and ciphertext = "Encode Encrypted sealed" and v = "''dv1''" and c = sealed
      and signature = "Encode Signed (seed @ seed)" and ?v2.0 = "''dv1''" and sig = "seed @ seed"
      and ident = "Encode TOTP_prefix (replicate 32 1)" and ?v3.0 = "''dv1''"
      and raw = "replicate 32 1" and now = 59 and accountID = "''a1-id''"
      and code = "''000000''" and issuer = "[]" and accountName = "[]"]
  have s1: "''totp'' @ CHR '':'' # ''dG90cA'' = ''totp:dG90cA''"
    and s2: "''anything'' @ CHR '':'' # ''dG90cA'' = ''anything:dG90cA''"
    by simp_all
  have h1: "CHR '':'' \<notin> set ''totp''" and h2: "CHR '':'' \<notin> set ''anything''"
    by simp_all
  have pl: "keys echo_protocol Version = Some echo_pool"
    by (simp add: echo_protocol_def echo_keys_def)
  have kd: "KDF32 echo_pool (bytes_of ''totp'') = Inr seed"
    by (simp add: echo_pool_def echo_KDF32_def bytes_of_def seed_def)
  have kd64: "KDF64 echo_pool (bytes_of ''totp'') = Inr (bytes_of ''totp'' @ replicate 60 0)"
    by (simp add: echo_pool_def echo_KDF64_def bytes_of_def)
  have len: "length seed = 32"
    by (simp add: bytes_of_def seed_def)
  have rd: "ReadFull (Some (replicate 24 7)) 24 = Some (replicate 24 7)"
    by (simp add: ReadFull_def)
  have a: "keyRingToBytes ''totp'' = bytes_of ''totp''"
    using t h1 by blast
  have d: "keyRingToBytes ''totp:dG90cA'' = bytes_of ''totp''
     \<and> keyRingToBytes ''anything:dG90cA'' = bytes_of ''totp''
     \<and> Protocol_MAC standin echo_protocol ''anything:dG90cA'' (bytes_of ''m'')
        = Protocol_MAC standin echo_protocol ''totp:dG90cA'' (bytes_of ''m'')
     \<and> Protocol_CreateSignKey echo_ed25519 echo_protocol ''anything:dG90cA''
        = Protocol_CreateSignKey echo_ed25519 echo_protocol ''totp:dG90cA''
     \<and> (\<exists>sealed.
         Protocol_Encrypt standin echo_protocol (Some (replicate 24 7)) ''totp:dG90cA''
             (bytes_of ''data'') = Some (Inr sealed)
         \<and> Protocol_Decrypt standin echo_protocol ''anything:dG90cA'' sealed
             = Some (Inr (bytes_of ''data'')))"
    using t h1 h2 DecodeString_totp pl kd len rd standin_opens [of seed]
    unfolding s1 s2 by blast
  have k2: "keyRingToBytes ''anything:dG90cA'' = bytes_of ''totp''"
    using d by blast
  have "Protocol_CreateSignKey echo_ed25519 echo_protocol ''anything:dG90cA'' =
            (case KDF32 echo_pool (keyRingToBytes ''anything:dG90cA'') of
               Inl err \<Rightarrow> Some (Inl err)
             | Inr seed \<Rightarrow>
                 if length seed \<noteq> 32 then None
                 else map_option Inr (Public (NewKeyFromSeed echo_ed25519 seed)))"
    using u pl by blast
  then have c2: "Protocol_CreateSignKey echo_ed25519 echo_protocol ''anything:dG90cA''
        = Some (Inr seed)"
    using kd len
    by (simp add: k2 Public_def echo_ed25519_def echo_NewKeyFromSeed_def)
  have c1: "Protocol_CreateSignKey echo_ed25519 echo_protocol ''totp:dG90cA'' = Some (Inr seed)"
    using d c2 by simp
  have "Protocol_Sign echo_ed25519 echo_protocol ''anything:dG90cA'' (bytes_of ''m'') =
            (case KDF32 echo_pool (keyRingToBytes ''anything:dG90cA'') of
               Inl err \<Rightarrow> Some (Inl err)
             | Inr seed \<Rightarrow>
                 if length seed \<noteq> 32 then None
                 else Some (case DV1_Sign echo_ed25519 (NewKeyFromSeed echo_ed25519 seed)
                                   (bytes_of ''m'') of
                              Inl err \<Rightarrow> Inl err
                            | Inr sig \<Rightarrow> Inr (Encode Signed sig, sig)))"
    using u pl by blast
  then have sg: "Protocol_Sign echo_ed25519 echo_protocol ''anything:dG90cA'' (bytes_of ''m'')
        = Some (Inr (Encode Signed (seed @ seed), seed @ seed))"
    using kd len
    by (simp add: k2 DV1_Sign_def echo_ed25519_def echo_NewKeyFromSeed_def echo_Sign_def)
  have "Protocol_Verify echo_ed25519 echo_protocol ''anything:dG90cA'' (bytes_of ''m'')
            (Encode Signed (seed @ seed)) =
               (case KDF32 echo_pool (keyRingToBytes ''anything:dG90cA'') of
                  Inl err \<Rightarrow> Some (Inl err)
                | Inr sd \<Rightarrow>
                    if length sd \<noteq> 32 then None
                    else map_option (\<lambda>publicKey. DV1_Verify echo_ed25519 publicKey
                                         (bytes_of ''m'') (seed @ seed))
                           (Public (NewKeyFromSeed echo_ed25519 sd)))"
    using u pl DecodeExpect_Encode_Signed [of "seed @ seed"] by blast
  then have vf: "Protocol_Verify echo_ed25519 echo_protocol ''anything:dG90cA'' (bytes_of ''m'')
            (Encode Signed (seed @ seed)) = Some (Inr True)"
    using kd len
    by (simp add: k2 Public_def DV1_Verify_def echo_ed25519_def echo_NewKeyFromSeed_def
        echo_Verify_def)
  have "Protocol_Decrypt standin echo_protocol ''anything:dG90cA'' (Encode Encrypted sealed) =
               Some (case KDF32 echo_pool (keyRingToBytes ''anything:dG90cA'') of
                       Inl err \<Rightarrow> Inl err
                     | Inr k \<Rightarrow> Decrypt standin k sealed)"
    using u pl DecodeExpect_Encode_Encrypted [of sealed] by blast
  then have dc: "Protocol_Decrypt standin echo_protocol ''anything:dG90cA''
            (Encode Encrypted sealed) = Some (Inr (bytes_of ''data''))"
    using kd len
    by (simp add: k2 Decrypt_def sealed_def standin_def standin_Open_def bytes_of_def)
  have m5: "MAC512 standin (bytes_of ''totp'' @ replicate 60 0) (replicate 32 1)
      = Inr (replicate 64 0)"
    by (simp add: MAC512_def standin_def standin_MAC512_def bytes_of_def)
  have m2: "MAC256 standin (replicate 64 0) (bytes_of ''a1-id'') = Inr (replicate 32 0)"
    by (simp add: MAC256_def standin_def standin_MAC256_def)
  have hs: "hmac_Sum standin = rfc4226_hmac"
    by (simp add: standin_def)
  have "VerifyTOTP standin echo_protocol 59 ''anything:dG90cA''
            (Encode TOTP_prefix (replicate 32 1)) ''a1-id'' ''000000'' =
               (case KDF64 echo_pool (keyRingToBytes ''anything:dG90cA'') of
                  Inl err \<Rightarrow> Some (Inl err)
                | Inr totpSK \<Rightarrow>
                    (case MAC512 standin totpSK (replicate 32 1) of
                       Inl err \<Rightarrow> Some (Inl err)
                     | Inr intermediate \<Rightarrow>
                         (case MAC256 standin intermediate (bytes_of ''a1-id'') of
                            Inl err \<Rightarrow> Some (Inl err)
                          | Inr secret \<Rightarrow>
                              map_option (\<lambda>r. Inr (fst r))
                                (Verify (hmac_Sum standin) 59 (protocol_totp secret [] [])
                                   ''000000''))))"
    using u pl DecodeExpect_Encode [of "replicate 32 1"] by blast
  then have vt: "VerifyTOTP standin echo_protocol 59 ''anything:dG90cA''
            (Encode TOTP_prefix (replicate 32 1)) ''a1-id'' ''000000''
        = map_option (\<lambda>r. Inr (fst r))
            (Verify rfc4226_hmac 59 (protocol_totp (replicate 32 0) [] []) ''000000'')"
    by (simp only: k2 kd64 sum.case m5 m2 hs)
  show ?thesis
    using a d pl kd c1 c2 sg vf dc vt
    unfolding seed_def sealed_def by simp
qed

end
